theory Spec2Isabelle
  imports Complex_Main "HOL-Library.AList" "HOL-Library.Multiset"
begin

section \<open>Python values, dictionaries and exceptions\<close>

text \<open>
  The three notebooks (Elasticsearch, MySQL, SEC sentiment analysis) handle JSON-like
  Python values. A dictionary keeps insertion order and has one entry per key, so it is an
  association list: \<open>map_of\<close> reads a key and \<open>AList.update\<close> assigns one
  (in place when the key exists, at the end otherwise), as \<^verbatim>\<open>d[k] = v\<close> does.
  Floats are the finite scores that TextBlob documents (polarity in [-1, 1], subjectivity
  in [0, 1]) and are held as reals.
\<close>

datatype pyval =
    PNone
  | PBool bool
  | PInt int
  | PFloat real
  | PStr string
  | PList "pyval list"
  | PDict "(string \<times> pyval) list"

type_synonym pydict = "(string \<times> pyval) list"

text \<open>
  An exception is a value. \<open>KeyError\<close>, \<open>IndexError\<close> and \<open>TypeError\<close>
  are what Python itself raises on a subscript; \<open>Raised name\<close> is any other
  exception, of class \<open>name\<close>, such as one that a library or a hosted API raises.
\<close>

datatype error = KeyError string | IndexError | TypeError | Raised string

text \<open>\<^verbatim>\<open>d[k]\<close> on a dictionary.\<close>

definition getitem :: "pydict \<Rightarrow> string \<Rightarrow> error + pyval" where
  "getitem d k = (case map_of d k of None \<Rightarrow> Inl (KeyError k) | Some v \<Rightarrow> Inr v)"

text \<open>\<^verbatim>\<open>d[k] = v\<close> on a dictionary.\<close>

definition setitem :: "pydict \<Rightarrow> string \<Rightarrow> pyval \<Rightarrow> pydict" where
  "setitem d k v = AList.update k v d"

text \<open>
  \<^verbatim>\<open>x[k]\<close> with a string key on any JSON value: only a dictionary accepts it.
\<close>

fun subscript :: "pyval \<Rightarrow> string \<Rightarrow> error + pyval" where
  "subscript (PDict d) k = getitem d k"
| "subscript _ k = Inl TypeError"

text \<open>
  A list comprehension \<^verbatim>\<open>[f(x) for x in xs]\<close> whose body may raise: the first
  exception ends it.
\<close>

fun comprehension :: "('a \<Rightarrow> error + 'b) \<Rightarrow> 'a list \<Rightarrow> error + 'b list" where
  "comprehension f [] = Inr []"
| "comprehension f (x # xs) =
     (case f x of
        Inl e \<Rightarrow> Inl e
      | Inr y \<Rightarrow> (case comprehension f xs of Inl e \<Rightarrow> Inl e | Inr ys \<Rightarrow> Inr (y # ys)))"

section \<open>SEC notebook: the training dataset\<close>

text \<open>
  \<^verbatim>\<open>
  datasets_data = Dataset.from_dict(
      {
          "text": [item["text"] for item in training_data],
          "label": [0 if item["sentiment"] == "Negative" else 1 for item in training_data],
      }
  )
  \<close>
  \<open>training_data\<close> is the list that \<^verbatim>\<open>json.load\<close> read from the LabelStudio
  export. The model gives the two columns handed to \<^verbatim>\<open>Dataset.from_dict\<close>; the
  text column is built first.
\<close>

definition label_of :: "pyval \<Rightarrow> int" where
  "label_of s = (if s = PStr ''Negative'' then 0 else 1)"

definition item_label :: "pyval \<Rightarrow> error + int" where
  "item_label item =
     (case subscript item ''sentiment'' of Inl e \<Rightarrow> Inl e | Inr s \<Rightarrow> Inr (label_of s))"

definition dataset_columns :: "pyval list \<Rightarrow> error + (pyval list \<times> int list)" where
  "dataset_columns training_data =
     (case comprehension (\<lambda>item. subscript item ''text'') training_data of
        Inl e \<Rightarrow> Inl e
      | Inr texts \<Rightarrow>
          (case comprehension item_label training_data of
             Inl e \<Rightarrow> Inl e
           | Inr labels \<Rightarrow> Inr (texts, labels)))"

text \<open>An item of the LabelStudio JSON-MIN export: a dictionary with both keys.\<close>

definition labeled_item :: "pyval \<Rightarrow> bool" where
  "labeled_item item =
     (case item of
        PDict d \<Rightarrow> map_of d ''text'' \<noteq> None \<and> map_of d ''sentiment'' \<noteq> None
      | _ \<Rightarrow> False)"

section \<open>Calls into libraries and APIs\<close>

text \<open>
  An element is what the partitioning library returns: \<open>category\<close> is its type tag,
  \<open>element_text\<close> its \<^verbatim>\<open>.text\<close> attribute. A dataframe is held as its rows.
  Every call that a notebook makes into a library or a hosted API is recorded, in order,
  with its outcome: \<open>None\<close> when it returned, \<open>Some e\<close> when it raised \<open>e\<close>.
  The collaborators themselves are parameters of the model: functions from the arguments
  of a call to its result or exception. A notebook is run once, its cells from top to
  bottom. A statement that only prints or displays a value is in the model when
  evaluating that value can raise, as a subscript on a list does: it then either changes
  nothing or ends the run. \<^verbatim>\<open>time.sleep\<close> and the cells that set up a
  database engine or a search client are not part of the model; each notebook's section
  says which of its cells are.
\<close>

record element =
  element_id :: string
  category :: string
  element_text :: string
  metadata :: pydict

datatype call =
    CleanExtraWhitespace pyval
  | TextBlobSentiment pyval
  | EsIndex pydict
  | Partition string
  | ConvertToDataframe "element list"
  | ToSql "pydict list"
  | ReadSqlQuery string
  | GetFormByTicker string
  | GetVersion
  | RequestsPost string string
  | RaiseForStatus
  | ResponseJson
  | IsdToElements pyval
  | Pipeline string
  | SentimentPipeline string
  | StageForLabelStudio "element list" "pyval list"
  | JsonDump string
  | JsonLoad string
  | DatasetFromDict "pyval list" "int list"
  | ModelFromPretrained string
  | TokenizerFromPretrained string
  | DatasetMap
  | DataCollatorWithPadding
  | MakeTrainer
  | TrainerTrain
  | SaveModel string
  | SecSentimentModel "string list"
  | StageForTransformers "element list"

record notebook =
  calls :: "(call \<times> error option) list"

definition called :: "call \<Rightarrow> error option \<Rightarrow> 'a notebook_scheme \<Rightarrow> 'a notebook_scheme" where
  "called c r s = s\<lparr>calls := calls s @ [(c, r)]\<rparr>"

definition raised :: "error + 'a \<Rightarrow> error option" where
  "raised r = (case r of Inl e \<Rightarrow> Some e | Inr v \<Rightarrow> None)"

section \<open>Loops and cells that may raise\<close>

text \<open>
  A \<^verbatim>\<open>for\<close> loop over a list whose body changes the notebook's state and may
  raise. No notebook has a \<^verbatim>\<open>try\<close>, so the first exception ends the loop (and
  the run); the state reached so far, with the calls already made, stays as it is.
  The result is the state and the exception raised, if any.
\<close>

fun for_loop :: "('a \<Rightarrow> 's \<Rightarrow> 's \<times> error option) \<Rightarrow> 'a list \<Rightarrow> 's \<Rightarrow> 's \<times> error option" where
  "for_loop body [] s = (s, None)"
| "for_loop body (x # xs) s =
     (case body x s of
        (s', Some e) \<Rightarrow> (s', Some e)
      | (s', None) \<Rightarrow> for_loop body xs s')"

text \<open>One statement or cell after another: the second runs only if the first returned.\<close>

definition then_run :: "('s \<Rightarrow> 's \<times> error option) \<Rightarrow> ('s \<Rightarrow> 's \<times> error option) \<Rightarrow> 's \<Rightarrow> 's \<times> error option" where
  "then_run f g s = (case f s of (s', Some e) \<Rightarrow> (s', Some e) | (s', None) \<Rightarrow> g s')"

section \<open>Elasticsearch notebook: cleaning and loading\<close>

text \<open>
  The model of this notebook starts from the dictionaries that
  \<^verbatim>\<open>convert_to_dict\<close> returned for the text elements; it covers the rest of that
  cell, the cleaning cell, the load loop and the ordering of the query hits.

  Python's \<^verbatim>\<open>round(x, ndigits)\<close> on a float rounds the exact value to the nearest
  multiple of \<open>10 ^ -ndigits\<close>, a tie going to the even neighbour.
\<close>

definition round_half_even :: "real \<Rightarrow> int" where
  "round_half_even x =
     (let f = \<lfloor>x\<rfloor>; d = x - of_int f
      in if d < 1 / 2 then f else if 1 / 2 < d then f + 1 else if even f then f else f + 1)"

definition round_ndigits :: "real \<Rightarrow> nat \<Rightarrow> real" where
  "round_ndigits x ndigits = of_int (round_half_even (x * 10 ^ ndigits)) / 10 ^ ndigits"

text \<open>
  The element dictionaries that \<^verbatim>\<open>convert_to_dict\<close> returned are objects: the
  loops assign to their keys in place, and \<^verbatim>\<open>clean_text_elements_dict\<close> holds the
  same objects as \<^verbatim>\<open>text_elements_dict\<close>. A list of dictionaries is therefore a
  list of addresses into a heap.
\<close>

type_synonym addr = nat

record es_notebook = notebook +
  heap :: "addr \<Rightarrow> pydict"
  clean_text_elements_dict :: "addr list"

text \<open>
  \<^verbatim>\<open>
  clean_text_elements_dict = []
  for element_dict in text_elements_dict:
      element_dict["text"] = clean_extra_whitespace(element_dict["text"])
      clean_text_elements_dict.append(element_dict)
  \<close>
\<close>

definition clean_step :: "(pyval \<Rightarrow> error + pyval) \<Rightarrow> addr \<Rightarrow> es_notebook \<Rightarrow> es_notebook \<times> error option" where
  "clean_step clean_extra_whitespace element_dict s =
     (case getitem (heap s element_dict) ''text'' of
        Inl e \<Rightarrow> (s, Some e)
      | Inr t \<Rightarrow>
          (let s1 = called (CleanExtraWhitespace t) (raised (clean_extra_whitespace t)) s
           in case clean_extra_whitespace t of
                Inl e \<Rightarrow> (s1, Some e)
              | Inr t' \<Rightarrow>
                  (s1\<lparr>heap := (heap s1)(element_dict := setitem (heap s1 element_dict) ''text'' t'),
                      clean_text_elements_dict := clean_text_elements_dict s1 @ [element_dict]\<rparr>,
                   None)))"

text \<open>
  \<^verbatim>\<open>
  for element in tqdm(clean_text_elements_dict):
      element_blob = TextBlob(element["text"])
      element["polarity"] = round(element_blob.sentiment.polarity, 4)
      element["subjectivity"] = round(element_blob.sentiment.subjectivity, 4)

      if element["polarity"] < 0:
          element["sentiment"] = "negative"
      elif element["polarity"] == 0:
          element["sentiment"] = "neutral"
      else:
          element["sentiment"] = "positive"

      es_client.index(index="search-unstructured-elements", document=element)
  \<close>
  \<open>TextBlob\<close> stands for building the blob and reading its sentiment: it returns the
  pair (polarity, subjectivity) or raises. \<open>es_index\<close> is the client call with the
  document it is given.
\<close>

definition sentiment_of :: "real \<Rightarrow> string" where
  "sentiment_of polarity =
     (if polarity < 0 then ''negative'' else if polarity = 0 then ''neutral'' else ''positive'')"

definition index_step ::
  "(pyval \<Rightarrow> error + real \<times> real) \<Rightarrow> (pydict \<Rightarrow> error option) \<Rightarrow> addr \<Rightarrow> es_notebook
    \<Rightarrow> es_notebook \<times> error option" where
  "index_step TextBlob es_index element s =
     (case getitem (heap s element) ''text'' of
        Inl e \<Rightarrow> (s, Some e)
      | Inr t \<Rightarrow>
          (let s1 = called (TextBlobSentiment t) (raised (TextBlob t)) s
           in case TextBlob t of
                Inl e \<Rightarrow> (s1, Some e)
              | Inr (pol, subj) \<Rightarrow>
                  (let d1 = setitem (heap s1 element) ''polarity'' (PFloat (round_ndigits pol 4));
                       d2 = setitem d1 ''subjectivity'' (PFloat (round_ndigits subj 4));
                       d3 = setitem d2 ''sentiment'' (PStr (sentiment_of (round_ndigits pol 4)))
                   in (called (EsIndex d3) (es_index d3) (s1\<lparr>heap := (heap s1)(element := d3)\<rparr>),
                       es_index d3))))"

text \<open>
  \<^verbatim>\<open>
  text_elements_dict = convert_to_dict(text_elements)
  print(json.dumps(text_elements_dict[4], indent=2))
  \<close>
  and, after the cleaning loop and in the same cell,
  \<^verbatim>\<open>
  print(json.dumps(clean_text_elements_dict[4], indent=2))
  \<close>
  The subscript raises \<open>IndexError\<close> on a list of fewer than five dictionaries.
  The dictionaries hold JSON values, which \<^verbatim>\<open>json.dumps\<close> accepts.
\<close>

definition print_fifth :: "addr list \<Rightarrow> es_notebook \<Rightarrow> es_notebook \<times> error option" where
  "print_fifth dicts s = (if 4 < length dicts then (s, None) else (s, Some IndexError))"

text \<open>
  The cells in sequence, from the dictionaries that staging returned: the display of the
  fifth dictionary, the cleaning loop, the display of the fifth cleaned dictionary, the
  load loop.
\<close>

definition clean_and_load ::
  "(pyval \<Rightarrow> error + pyval) \<Rightarrow> (pyval \<Rightarrow> error + real \<times> real) \<Rightarrow> (pydict \<Rightarrow> error option)
    \<Rightarrow> addr list \<Rightarrow> (addr \<Rightarrow> pydict) \<Rightarrow> es_notebook \<times> error option" where
  "clean_and_load clean_extra_whitespace TextBlob es_index text_elements_dict h =
     then_run (print_fifth text_elements_dict)
    (then_run (for_loop (clean_step clean_extra_whitespace) text_elements_dict)
    (then_run (\<lambda>s. print_fifth (clean_text_elements_dict s) s)
              (\<lambda>s. for_loop (index_step TextBlob es_index) (clean_text_elements_dict s) s)))
       \<lparr>calls = [], heap = h, clean_text_elements_dict = []\<rparr>"

text \<open>The documents given to \<^verbatim>\<open>es_client.index\<close>, in the order of the calls.\<close>

fun index_calls :: "(call \<times> error option) list \<Rightarrow> pydict list" where
  "index_calls [] = []"
| "index_calls ((EsIndex d, r) # cs) = d # index_calls cs"
| "index_calls (c # cs) = index_calls cs"

section \<open>Elasticsearch notebook: ordering the hits\<close>

text \<open>
  \<^verbatim>\<open>
  sorted_elements = sorted(response, key=lambda d: d["polarity"], reverse=True)
  sorted_elements = sorted(sorted_elements, key=lambda d: d["subjectivity"], reverse=True)
  \<close>
  A hit is a document of the index that the load loop filled, so both scores are floats.
  Python's sort is stable; with \<^verbatim>\<open>reverse=True\<close> it reverses the list, sorts it
  stably in ascending order and reverses the result, which keeps equal keys in their
  original order.
\<close>

record hit =
  hit_text :: string
  sentiment :: string
  polarity :: real
  subjectivity :: real

definition sorted_reverse :: "('a \<Rightarrow> real) \<Rightarrow> 'a list \<Rightarrow> 'a list" where
  "sorted_reverse key xs = rev (sort_key key (rev xs))"

definition sorted_elements :: "hit list \<Rightarrow> hit list" where
  "sorted_elements response = sorted_reverse subjectivity (sorted_reverse polarity response)"

section \<open>MySQL notebook\<close>

text \<open>
  \<^verbatim>\<open>
  EXAMPLE_DOCS_FOLDER = "../../example-docs/"
  elements = []
  for document in documents_to_process:
      filename = os.path.join(EXAMPLE_DOCS_FOLDER, document)
      elements.extend(partition(filename=filename, strategy="fast"))
  elements[0].text
  elements[0].metadata.to_dict()
  elements_df = convert_to_dataframe(elements)
  elements_df.to_sql(name=table_name, con=engine, if_exists="replace", index=False)
  with engine.begin() as conn:
      elements_read_df = pd.read_sql_query(sql=text(sql), con=conn)
  \<close>
  These are the cells that partition, display the first element, convert, load and read
  back. \<open>path_join\<close> is \<^verbatim>\<open>os.path.join\<close> on two POSIX paths; \<open>sql\<close>
  is the text of the query. The two display cells read \<^verbatim>\<open>elements[0]\<close>, which
  raises \<open>IndexError\<close> when partitioning gave no element.
\<close>

definition path_join :: "string \<Rightarrow> string \<Rightarrow> string" where
  "path_join a b =
     (if b \<noteq> [] \<and> hd b = CHR ''/'' then b
      else if a = [] \<or> last a = CHR ''/'' then a @ b
      else a @ ''/'' @ b)"

definition EXAMPLE_DOCS_FOLDER :: string where
  "EXAMPLE_DOCS_FOLDER = ''../../example-docs/''"

record elements_notebook = notebook +
  elements :: "element list"

type_synonym mysql_notebook = elements_notebook

definition partition_step :: "(string \<Rightarrow> error + element list) \<Rightarrow> string \<Rightarrow> mysql_notebook
    \<Rightarrow> mysql_notebook \<times> error option" where
  "partition_step partition_auto document s =
     (let filename = path_join EXAMPLE_DOCS_FOLDER document;
          s1 = called (Partition filename) (raised (partition_auto filename)) s
      in case partition_auto filename of
           Inl e \<Rightarrow> (s1, Some e)
         | Inr es \<Rightarrow> (s1\<lparr>elements := elements s1 @ es\<rparr>, None))"

definition display_first :: "mysql_notebook \<Rightarrow> mysql_notebook \<times> error option" where
  "display_first s =
     (case elements s of
        [] \<Rightarrow> (s, Some IndexError)
      | element # rest \<Rightarrow> (s, None))"

definition to_sql_step ::
  "(element list \<Rightarrow> error + pydict list) \<Rightarrow> (pydict list \<Rightarrow> error option) \<Rightarrow> mysql_notebook
    \<Rightarrow> mysql_notebook \<times> error option" where
  "to_sql_step convert_to_dataframe to_sql s =
     (let s1 = called (ConvertToDataframe (elements s)) (raised (convert_to_dataframe (elements s))) s
      in case convert_to_dataframe (elements s) of
           Inl e \<Rightarrow> (s1, Some e)
         | Inr elements_df \<Rightarrow> (called (ToSql elements_df) (to_sql elements_df) s1, to_sql elements_df))"

definition read_step :: "(string \<Rightarrow> error option) \<Rightarrow> string \<Rightarrow> mysql_notebook
    \<Rightarrow> mysql_notebook \<times> error option" where
  "read_step read_sql_query sql s =
     (called (ReadSqlQuery sql) (read_sql_query sql) s, read_sql_query sql)"

definition load_into_mysql ::
  "(string \<Rightarrow> error + element list) \<Rightarrow> (element list \<Rightarrow> error + pydict list)
    \<Rightarrow> (pydict list \<Rightarrow> error option) \<Rightarrow> (string \<Rightarrow> error option) \<Rightarrow> string
    \<Rightarrow> string list \<Rightarrow> mysql_notebook \<times> error option" where
  "load_into_mysql partition_auto convert_to_dataframe to_sql read_sql_query sql
       documents_to_process =
     then_run (for_loop (partition_step partition_auto) documents_to_process)
    (then_run display_first
    (then_run (to_sql_step convert_to_dataframe to_sql) (read_step read_sql_query sql)))
       \<lparr>calls = [], elements = []\<rparr>"

text \<open>The dataframes given to \<^verbatim>\<open>to_sql\<close>, in the order of the calls.\<close>

fun to_sql_calls :: "(call \<times> error option) list \<Rightarrow> pydict list list" where
  "to_sql_calls [] = []"
| "to_sql_calls ((ToSql df, r) # cs) = df # to_sql_calls cs"
| "to_sql_calls (c # cs) = to_sql_calls cs"

section \<open>SEC notebook\<close>

text \<open>
  The model covers the notebook from the cell that makes the directory of the forms to
  the last inference call.
  The collaborators of the SEC notebook: a response is what \<^verbatim>\<open>requests.post\<close>
  returned: what \<^verbatim>\<open>raise_for_status()\<close> will do and what \<^verbatim>\<open>json()\<close> will
  give. \<open>library\<close> answers the calls whose results the notebook only hands on to
  other calls (models, tokenizers, the trainer): whether they return or raise.
  \<open>getcwd\<close> is the working directory of the process, which
  \<^verbatim>\<open>os.getcwd()\<close> returns and against which a relative path is resolved;
  \<open>path_exists\<close> is \<^verbatim>\<open>os.path.exists\<close>; \<open>mkdir\<close> says whether
  \<^verbatim>\<open>os.mkdir\<close> raises; \<open>open_write\<close> says whether opening a path for
  writing and writing to it raises, as \<^verbatim>\<open>open(filename, "w")\<close> does when the
  directory of the path does not exist or cannot be written.
\<close>

record response =
  raise_for_status :: "error option"
  json :: "error + pyval"

record sec_env =
  get_form_by_ticker :: "string \<Rightarrow> error + string"
  get_version :: "error + string"
  requests_post :: "string \<Rightarrow> string \<Rightarrow> error + response"
  isd_to_elements :: "pyval \<Rightarrow> error + element list"
  sentiment_pipeline :: "string \<Rightarrow> error + (string \<times> real) list"
  stage_for_label_studio :: "element list \<Rightarrow> pyval list \<Rightarrow> error + pyval"
  json_load :: "string \<Rightarrow> error + pyval list"
  stage_for_transformers :: "element list \<Rightarrow> error + string list"
  library :: "call \<Rightarrow> error option"
  getcwd :: string
  path_exists :: "string \<Rightarrow> bool"
  mkdir :: "string \<Rightarrow> error option"
  open_write :: "string \<Rightarrow> error option"

text \<open>
  A file is known by its location: the names of the directories from the root down to
  it, and its own name. \<open>split_path\<close> cuts a POSIX path at its slashes;
  \<open>walk\<close> follows the components from a directory, where an empty component and
  \<^verbatim>\<open>.\<close> stay in place and \<^verbatim>\<open>..\<close> goes to the parent (symbolic links
  are not modelled); \<open>resolve\<close> gives the location that a path names to a process
  whose working directory is \<open>cwd\<close>: an absolute path is walked from the root, a
  relative one from the working directory.
\<close>

fun split_path :: "string \<Rightarrow> string list" where
  "split_path [] = [[]]"
| "split_path (c # cs) =
     (if c = CHR ''/'' then [] # split_path cs
      else (case split_path cs of
              [] \<Rightarrow> [[c]]
            | component # components \<Rightarrow> (c # component) # components))"

fun walk :: "string list \<Rightarrow> string list \<Rightarrow> string list" where
  "walk directory [] = directory"
| "walk directory (c # cs) =
     (if c = [] \<or> c = ''.'' then walk directory cs
      else if c = ''..'' then walk (butlast directory) cs
      else walk (directory @ [c]) cs)"

definition resolve :: "string \<Rightarrow> string \<Rightarrow> string list" where
  "resolve cwd path =
     (if path \<noteq> [] \<and> hd path = CHR ''/'' then walk [] (split_path path)
      else walk (walk [] (split_path cwd)) (split_path path))"

text \<open>
  The notebook's variables, and the files on disk: the content of each file, by
  location.
\<close>

record sec_notebook = elements_notebook +
  files :: "(string list \<times> string) list"
  url :: string
  risk_factors :: pydict
  annotations :: "pyval list"
  label_studio_data :: pyval
  training_data :: "pyval list"
  chunked_text :: "string list"

definition opaque_call :: "sec_env \<Rightarrow> call \<Rightarrow> sec_notebook \<Rightarrow> sec_notebook \<times> error option" where
  "opaque_call env c s = (called c (library env c) s, library env c)"

text \<open>
  \<^verbatim>\<open>
  cwd = os.getcwd()
  data_directory = os.path.join(cwd, "xbrl-forms")
  if not os.path.exists(data_directory):
      os.mkdir(data_directory)
  for ticker in tickers:
      form_text = get_form_by_ticker(ticker=ticker, form_type="10-K", company=..., email=...)
      filename = os.path.join(data_directory, f"{ticker}-10k.xbrl")
      with open(filename, "w") as f:
          f.write(form_text)
  \<close>
  \<open>form_filename\<close> is the path \<^verbatim>\<open>filename\<close> that the loop writes for a
  ticker. When \<^verbatim>\<open>open\<close> raises, the loop ends with nothing written; otherwise
  the file at the location of that path holds the form.
\<close>

definition data_directory :: "sec_env \<Rightarrow> string" where
  "data_directory env = path_join (getcwd env) ''xbrl-forms''"

definition make_directory :: "sec_env \<Rightarrow> sec_notebook \<Rightarrow> sec_notebook \<times> error option" where
  "make_directory env s =
     (if path_exists env (data_directory env) then (s, None)
      else (s, mkdir env (data_directory env)))"

definition form_filename :: "sec_env \<Rightarrow> string \<Rightarrow> string" where
  "form_filename env ticker = path_join (data_directory env) (ticker @ ''-10k.xbrl'')"

definition fetch_step :: "sec_env \<Rightarrow> string \<Rightarrow> sec_notebook \<Rightarrow> sec_notebook \<times> error option" where
  "fetch_step env ticker s =
     (let s1 = called (GetFormByTicker ticker) (raised (get_form_by_ticker env ticker)) s
      in case get_form_by_ticker env ticker of
           Inl e \<Rightarrow> (s1, Some e)
         | Inr form_text \<Rightarrow>
             (case open_write env (form_filename env ticker) of
                Some e \<Rightarrow> (s1, Some e)
              | None \<Rightarrow>
                  (s1\<lparr>files := AList.update (resolve (getcwd env) (form_filename env ticker))
                                  form_text (files s1)\<rparr>,
                   None)))"

text \<open>
  \<^verbatim>\<open>
  version = get_version()
  url = f"https://api.unstructured.io/sec-filings/v{version}/section"
  risk_factors = dict()
  for ticker in tickers:
      response = requests.post(
          url,
          files={"text_files": open(f"./xbrl-forms/{ticker}-10k.xbrl", "rb")},
          data={"section": ["RISK_FACTORS"]},
      )
      response.raise_for_status()
      risk_factors[ticker] = response.json()["RISK_FACTORS"]
      time.sleep(1)
  \<close>
  \<open>text_file\<close> is the path that the loop opens for a ticker, relative to the
  working directory; \<^verbatim>\<open>open\<close> raises when there is no file at its location.
\<close>

definition text_file :: "string \<Rightarrow> string" where
  "text_file ticker = ''./xbrl-forms/'' @ ticker @ ''-10k.xbrl''"

definition version_step :: "sec_env \<Rightarrow> sec_notebook \<Rightarrow> sec_notebook \<times> error option" where
  "version_step env s =
     (let s1 = called GetVersion (raised (get_version env)) s
      in case get_version env of
           Inl e \<Rightarrow> (s1, Some e)
         | Inr version \<Rightarrow>
             (s1\<lparr>url := ''https://api.unstructured.io/sec-filings/v'' @ version @ ''/section'',
                 risk_factors := []\<rparr>, None))"

definition extract_step :: "sec_env \<Rightarrow> string \<Rightarrow> sec_notebook \<Rightarrow> sec_notebook \<times> error option" where
  "extract_step env ticker s =
     (case map_of (files s) (resolve (getcwd env) (text_file ticker)) of
        None \<Rightarrow> (s, Some (Raised ''FileNotFoundError''))
      | Some content \<Rightarrow>
          (let s1 = called (RequestsPost (url s) content)
                      (raised (requests_post env (url s) content)) s
           in case requests_post env (url s) content of
                Inl e \<Rightarrow> (s1, Some e)
              | Inr response \<Rightarrow>
                  (let s2 = called RaiseForStatus (raise_for_status response) s1
                   in case raise_for_status response of
                        Some e \<Rightarrow> (s2, Some e)
                      | None \<Rightarrow>
                          (let s3 = called ResponseJson (raised (json response)) s2
                           in case json response of
                                Inl e \<Rightarrow> (s3, Some e)
                              | Inr body \<Rightarrow>
                                  (case subscript body ''RISK_FACTORS'' of
                                     Inl e \<Rightarrow> (s3, Some e)
                                   | Inr sections \<Rightarrow>
                                       (s3\<lparr>risk_factors :=
                                             setitem (risk_factors s3) ticker sections\<rparr>,
                                        None))))))"

text \<open>
  \<^verbatim>\<open>
  elements = []
  for sections in risk_factors.values():
      elements.extend(isd_to_elements(sections))
  model = "distilbert-base-uncased-finetuned-sst-2-english"
  sentiment_pipeline = pipeline(model=model)
  annotations = []
  for i, element in enumerate(elements):
      inference = sentiment_pipeline(element.text, truncation=True)
      result = [
          LabelStudioResult(
              type="choices",
              value={"choices": [inference[0]["label"].title()]},
              from_name="sentiment",
              to_name="text",
          )
      ]
      annotations.append([LabelStudioAnnotation(result=result)])
  label_studio_data = stage_for_label_studio(elements=elements, annotations=annotations)
  with open("sec-sentiment-analysis.json", "w") as f:
      json.dump(label_studio_data, f, indent=4)
  \<close>
  \<open>title\<close> is \<^verbatim>\<open>str.title\<close> on ASCII text: the first letter of every run of
  letters in upper case, the others in lower case. An annotation object is held as the
  dictionary of its fields.
\<close>

definition is_upper :: "char \<Rightarrow> bool" where
  "is_upper c = (65 \<le> (of_char c :: nat) \<and> (of_char c :: nat) \<le> 90)"

definition is_lower :: "char \<Rightarrow> bool" where
  "is_lower c = (97 \<le> (of_char c :: nat) \<and> (of_char c :: nat) \<le> 122)"

definition to_lower :: "char \<Rightarrow> char" where
  "to_lower c = (if is_upper c then char_of (of_char c + 32 :: nat) else c)"

definition to_upper :: "char \<Rightarrow> char" where
  "to_upper c = (if is_lower c then char_of (of_char c - 32 :: nat) else c)"

fun title_from :: "bool \<Rightarrow> string \<Rightarrow> string" where
  "title_from previous_is_cased [] = []"
| "title_from previous_is_cased (c # cs) =
     (if is_upper c \<or> is_lower c
      then (if previous_is_cased then to_lower c else to_upper c) # title_from True cs
      else c # title_from False cs)"

definition title :: "string \<Rightarrow> string" where
  "title t = title_from False t"

definition annotation :: "string \<Rightarrow> pyval" where
  "annotation choice =
     PList [PDict [(''result'',
       PList [PDict [(''type'', PStr ''choices''),
                     (''value'', PDict [(''choices'', PList [PStr choice])]),
                     (''from_name'', PStr ''sentiment''),
                     (''to_name'', PStr ''text'')]])]]"

definition isd_step :: "sec_env \<Rightarrow> pyval \<Rightarrow> sec_notebook \<Rightarrow> sec_notebook \<times> error option" where
  "isd_step env sections s =
     (let s1 = called (IsdToElements sections) (raised (isd_to_elements env sections)) s
      in case isd_to_elements env sections of
           Inl e \<Rightarrow> (s1, Some e)
         | Inr es \<Rightarrow> (s1\<lparr>elements := elements s1 @ es\<rparr>, None))"

definition annotate_step :: "sec_env \<Rightarrow> element \<Rightarrow> sec_notebook \<Rightarrow> sec_notebook \<times> error option" where
  "annotate_step env element s =
     (let s1 = called (SentimentPipeline (element_text element))
                 (raised (sentiment_pipeline env (element_text element))) s
      in case sentiment_pipeline env (element_text element) of
           Inl e \<Rightarrow> (s1, Some e)
         | Inr inference \<Rightarrow>
             (case inference of
                [] \<Rightarrow> (s1, Some IndexError)
              | (label, score) # rest \<Rightarrow>
                  (s1\<lparr>annotations := annotations s1 @ [annotation (title label)]\<rparr>, None)))"

definition label_studio_step :: "sec_env \<Rightarrow> sec_notebook \<Rightarrow> sec_notebook \<times> error option" where
  "label_studio_step env s =
     (let s1 = called (StageForLabelStudio (elements s) (annotations s))
                 (raised (stage_for_label_studio env (elements s) (annotations s))) s
      in case stage_for_label_studio env (elements s) (annotations s) of
           Inl e \<Rightarrow> (s1, Some e)
         | Inr data \<Rightarrow> (s1\<lparr>label_studio_data := data\<rparr>, None))"

text \<open>
  \<^verbatim>\<open>
  with open("sec-sentiment-analysis-labeled.json", "r") as f:
      training_data = json.load(f)
  datasets_data = Dataset.from_dict({...})
  model = AutoModelForSequenceClassification.from_pretrained(model_name, num_labels=2)
  tokenizer = AutoTokenizer.from_pretrained(model_name)
  tokenized_train = datasets_data.map(preprocess_function, batched=True)
  data_collator = DataCollatorWithPadding(tokenizer=tokenizer)
  trainer = Trainer(model=model, train_dataset=tokenized_train, tokenizer=tokenizer,
                    data_collator=data_collator)
  trainer.train()
  \<close>
\<close>

definition json_load_step :: "sec_env \<Rightarrow> sec_notebook \<Rightarrow> sec_notebook \<times> error option" where
  "json_load_step env s =
     (let s1 = called (JsonLoad ''sec-sentiment-analysis-labeled.json'')
                 (raised (json_load env ''sec-sentiment-analysis-labeled.json'')) s
      in case json_load env ''sec-sentiment-analysis-labeled.json'' of
           Inl e \<Rightarrow> (s1, Some e)
         | Inr data \<Rightarrow> (s1\<lparr>training_data := data\<rparr>, None))"

definition from_dict_step :: "sec_env \<Rightarrow> sec_notebook \<Rightarrow> sec_notebook \<times> error option" where
  "from_dict_step env s =
     (case dataset_columns (training_data s) of
        Inl e \<Rightarrow> (s, Some e)
      | Inr (texts, labels) \<Rightarrow> opaque_call env (DatasetFromDict texts labels) s)"

text \<open>
  \<^verbatim>\<open>
  trainer.save_model("sec-sentiment-model")
  sec_sentiment_model = pipeline(task="sentiment-analysis", model="./sec-sentiment-model")
  elements[0].text
  sec_sentiment_model(elements[0].text)
  chunked_text = stage_for_transformers(elements[:10], tokenizer)
  results = sec_sentiment_model(chunked_text)
  \<close>
\<close>

definition first_element_step :: "sec_env \<Rightarrow> sec_notebook \<Rightarrow> sec_notebook \<times> error option" where
  "first_element_step env s =
     (case elements s of
        [] \<Rightarrow> (s, Some IndexError)
      | element # rest \<Rightarrow> opaque_call env (SecSentimentModel [element_text element]) s)"

definition chunk_step :: "sec_env \<Rightarrow> sec_notebook \<Rightarrow> sec_notebook \<times> error option" where
  "chunk_step env s =
     (let s1 = called (StageForTransformers (take 10 (elements s)))
                 (raised (stage_for_transformers env (take 10 (elements s)))) s
      in case stage_for_transformers env (take 10 (elements s)) of
           Inl e \<Rightarrow> (s1, Some e)
         | Inr chunks \<Rightarrow> (s1\<lparr>chunked_text := chunks\<rparr>, None))"

text \<open>
  \<^verbatim>\<open>
  tickers = ["ehc", "mrk", "nke", "msex", "v", "cvs", "doc", "smtc", "cl", "ava", "bc", "f",
             "lmt", "cri", "aig", "rgld", "apld", "omcl", "mmm", "bgs", "dis", "wetg", "bj"]
  \<close>
  The notebook runs its loops over this list; the model takes the list as a parameter.
\<close>

definition notebook_tickers :: "string list" where
  "notebook_tickers =
     [''ehc'', ''mrk'', ''nke'', ''msex'', ''v'', ''cvs'', ''doc'', ''smtc'', ''cl'', ''ava'',
      ''bc'', ''f'', ''lmt'', ''cri'', ''aig'', ''rgld'', ''apld'', ''omcl'', ''mmm'', ''bgs'',
      ''dis'', ''wetg'', ''bj'']"

text \<open>The five parts of the notebook, under its own headings, and the whole run.\<close>

definition get_filings :: "sec_env \<Rightarrow> string list \<Rightarrow> sec_notebook \<Rightarrow> sec_notebook \<times> error option" where
  "get_filings env tickers =
     then_run (make_directory env) (for_loop (fetch_step env) tickers)"

definition extract_narrative :: "sec_env \<Rightarrow> string list \<Rightarrow> sec_notebook \<Rightarrow> sec_notebook \<times> error option" where
  "extract_narrative env tickers =
     then_run (version_step env) (for_loop (extract_step env) tickers)"

definition stage_label_studio :: "sec_env \<Rightarrow> sec_notebook \<Rightarrow> sec_notebook \<times> error option" where
  "stage_label_studio env =
     then_run (\<lambda>s. for_loop (isd_step env) (map snd (risk_factors s)) (s\<lparr>elements := []\<rparr>))
    (then_run (opaque_call env (Pipeline ''distilbert-base-uncased-finetuned-sst-2-english''))
    (then_run (\<lambda>s. for_loop (annotate_step env) (elements s) (s\<lparr>annotations := []\<rparr>))
    (then_run (label_studio_step env)
              (opaque_call env (JsonDump ''sec-sentiment-analysis.json'')))))"

definition train :: "sec_env \<Rightarrow> sec_notebook \<Rightarrow> sec_notebook \<times> error option" where
  "train env =
     then_run (json_load_step env)
    (then_run (from_dict_step env)
    (then_run (opaque_call env (ModelFromPretrained ''distilbert-base-uncased''))
    (then_run (opaque_call env (TokenizerFromPretrained ''distilbert-base-uncased''))
    (then_run (opaque_call env DatasetMap)
    (then_run (opaque_call env DataCollatorWithPadding)
    (then_run (opaque_call env MakeTrainer)
              (opaque_call env TrainerTrain)))))))"

definition chunk :: "sec_env \<Rightarrow> sec_notebook \<Rightarrow> sec_notebook \<times> error option" where
  "chunk env =
     then_run (opaque_call env (SaveModel ''sec-sentiment-model''))
    (then_run (opaque_call env (Pipeline ''./sec-sentiment-model''))
    (then_run (first_element_step env)
    (then_run (chunk_step env)
              (\<lambda>s. opaque_call env (SecSentimentModel (chunked_text s)) s))))"

definition sec_sentiment_analysis ::
  "sec_env \<Rightarrow> string list \<Rightarrow> sec_notebook \<Rightarrow> sec_notebook \<times> error option" where
  "sec_sentiment_analysis env tickers =
     then_run (get_filings env tickers)
    (then_run (extract_narrative env tickers)
    (then_run (stage_label_studio env)
    (then_run (train env) (chunk env))))"

text \<open>The part of the notebook that a call belongs to.\<close>

fun stage_of :: "call \<Rightarrow> nat" where
  "stage_of (GetFormByTicker t) = 1"
| "stage_of GetVersion = 2"
| "stage_of (RequestsPost u f) = 2"
| "stage_of RaiseForStatus = 2"
| "stage_of ResponseJson = 2"
| "stage_of (IsdToElements v) = 3"
| "stage_of (Pipeline m) = (if m = ''./sec-sentiment-model'' then 5 else 3)"
| "stage_of (SentimentPipeline t) = 3"
| "stage_of (StageForLabelStudio es as) = 3"
| "stage_of (JsonDump f) = 3"
| "stage_of (JsonLoad f) = 4"
| "stage_of (DatasetFromDict ts ls) = 4"
| "stage_of (ModelFromPretrained m) = 4"
| "stage_of (TokenizerFromPretrained m) = 4"
| "stage_of DatasetMap = 4"
| "stage_of DataCollatorWithPadding = 4"
| "stage_of MakeTrainer = 4"
| "stage_of TrainerTrain = 4"
| "stage_of (SaveModel m) = 5"
| "stage_of (SecSentimentModel ts) = 5"
| "stage_of (StageForTransformers es) = 5"
| "stage_of c = 0"

text \<open>
  What a log says was done: the tickers fetched, the files posted, the texts annotated,
  each by a call that returned.
\<close>

fun fetched :: "(call \<times> error option) list \<Rightarrow> string list" where
  "fetched [] = []"
| "fetched ((GetFormByTicker t, None) # cs) = t # fetched cs"
| "fetched (c # cs) = fetched cs"

fun posted :: "(call \<times> error option) list \<Rightarrow> string list" where
  "posted [] = []"
| "posted ((RequestsPost u f, None) # cs) = f # posted cs"
| "posted (c # cs) = posted cs"

fun annotated :: "(call \<times> error option) list \<Rightarrow> string list" where
  "annotated [] = []"
| "annotated ((SentimentPipeline t, None) # cs) = t # annotated cs"
| "annotated (c # cs) = annotated cs"

text \<open>
  A log in which no call but the last raised, and the last one either returned or raised
  the exception \<open>r\<close>.
\<close>

fun raises_last :: "(call \<times> error option) list \<Rightarrow> error option \<Rightarrow> bool" where
  "raises_last [] r = True"
| "raises_last [(c, x)] r = (x = None \<or> x = r)"
| "raises_last ((c, x) # cs) r = (x = None \<and> raises_last cs r)"

section \<open>Sample collaborators and inputs\<close>

text \<open>Stand-ins for the libraries, used to run the notebooks on concrete data.\<close>

definition sample_clean :: "pyval \<Rightarrow> error + pyval" where
  "sample_clean v =
     (case v of
        PStr t \<Rightarrow> Inr (PStr (filter (\<lambda>c. c \<noteq> CHR 0x0A) t))
      | _ \<Rightarrow> Inl TypeError)"

definition sample_TextBlob :: "pyval \<Rightarrow> error + real \<times> real" where
  "sample_TextBlob v =
     (case v of
        PStr t \<Rightarrow> if t = ''bad'' then Inr (- 6999999999999998 / 10000000000000000, 6666666666666666 / 10000000000000000) else Inr (0, 0)
      | _ \<Rightarrow> Inl TypeError)"

definition sample_es_index :: "pydict \<Rightarrow> error option" where
  "sample_es_index document = None"

text \<open>
  Five staged dictionaries, at the addresses 0 to 4: the notebook displays the fifth. On
  the text of the first, TextBlob returns the polarity -0.6999999999999998 and the
  subjectivity 0.6666666666666666; on the others, which hold no word of its lexicon, 0
  and 0.
\<close>

definition sample_heap :: "addr \<Rightarrow> pydict" where
  "sample_heap a =
     (if a = 0 then [(''element_id'', PStr ''e0''), (''text'', PStr (''bad'' @ [CHR 0x0A]))]
      else if a = 1 then [(''element_id'', PStr ''e1''), (''text'', PStr ''Dec 13'')]
      else if a = 2 then [(''element_id'', PStr ''e2''), (''text'', PStr ''Dec 14'')]
      else if a = 3 then [(''element_id'', PStr ''e3''), (''text'', PStr ''Dec 15'')]
      else if a = 4 then [(''element_id'', PStr ''e4''), (''text'', PStr ''Dec 16'')]
      else [])"

definition sample_dicts :: "addr list" where
  "sample_dicts = [0, 1, 2, 3, 4]"

definition sample_cleaned :: es_notebook where
  "sample_cleaned =
     \<lparr>calls = [],
      heap = (\<lambda>a. if a = 0 then [(''element_id'', PStr ''e0''), (''text'', PStr ''bad'')]
                   else if a = 1 then [(''element_id'', PStr ''e1''), (''text'', PStr ''Dec 13'')]
                   else []),
      clean_text_elements_dict = [0, 1]\<rparr>"

definition sample_element :: "string \<Rightarrow> element" where
  "sample_element t = \<lparr>element_id = t, category = ''NarrativeText'', element_text = t, metadata = []\<rparr>"

definition sample_partition :: "string \<Rightarrow> error + element list" where
  "sample_partition filename = Inr [sample_element filename, sample_element ''more'']"

definition sample_convert :: "element list \<Rightarrow> error + pydict list" where
  "sample_convert es = Inr (map (\<lambda>e. [(''text'', PStr (element_text e))]) es)"

definition sample_to_sql :: "pydict list \<Rightarrow> error option" where
  "sample_to_sql df = None"

definition sample_read :: "string \<Rightarrow> error option" where
  "sample_read q = None"

definition sample_response :: "string \<Rightarrow> response" where
  "sample_response f =
     \<lparr>raise_for_status = None, json = Inr (PDict [(''RISK_FACTORS'', PList [PStr f])])\<rparr>"

definition sample_env :: sec_env where
  "sample_env =
     \<lparr>get_form_by_ticker = (\<lambda>t. Inr (''form '' @ t)),
      get_version = Inr ''0.2.0'',
      requests_post = (\<lambda>u f. Inr (sample_response f)),
      isd_to_elements = (\<lambda>v. Inr [sample_element ''risk'']),
      sentiment_pipeline = (\<lambda>t. Inr [(''NEGATIVE'', 99 / 100)]),
      stage_for_label_studio = (\<lambda>es as. Inr (PList as)),
      json_load =
        (\<lambda>f. Inr [PDict [(''text'', PStr ''risk''), (''sentiment'', PStr ''Negative'')]]),
      stage_for_transformers = (\<lambda>es. Inr [''risk'']),
      library = (\<lambda>c. None),
      getcwd = ''/work'',
      path_exists = (\<lambda>path. False),
      mkdir = (\<lambda>path. None),
      open_write = (\<lambda>path. None)\<rparr>"

text \<open>The same collaborators, with an extraction API that answers with an error status.\<close>

definition failing_env :: sec_env where
  "failing_env =
     sample_env\<lparr>requests_post :=
       (\<lambda>u f. Inr ((sample_response f)\<lparr>raise_for_status := Some (Raised ''HTTPError'')\<rparr>))\<rparr>"

text \<open>
  The notebook before its first cell, with the files already on disk, each at its
  location.
\<close>

definition fresh :: "(string list \<times> string) list \<Rightarrow> sec_notebook" where
  "fresh fs =
     \<lparr>calls = [], elements = [], files = fs, url = [], risk_factors = [], annotations = [],
      label_studio_data = PNone, training_data = [], chunked_text = []\<rparr>"

section \<open>Properties\<close>

subsection \<open>List comprehensions\<close>

lemma comprehension_length:
  "comprehension f xs = Inr ys \<Longrightarrow> length ys = length xs"
  by (induction xs arbitrary: ys) (auto split: sum.splits)

lemma comprehension_nth:
  "comprehension f xs = Inr ys \<Longrightarrow> i < length xs \<Longrightarrow> f (xs ! i) = Inr (ys ! i)"
proof (induction xs arbitrary: ys i)
  case Nil
  then show ?case by simp
next
  case (Cons x xs)
  then show ?case
    by (cases i) (auto split: sum.splits)
qed

lemma comprehension_total:
  "(\<And>x. x \<in> set xs \<Longrightarrow> \<exists>y. f x = Inr y) \<Longrightarrow> \<exists>ys. comprehension f xs = Inr ys"
proof (induction xs)
  case Nil
  then show ?case by simp
next
  case (Cons x xs)
  then obtain y where y: "f x = Inr y" by auto
  from Cons obtain ys where "comprehension f xs = Inr ys" by auto
  with y show ?case by simp
qed

subsection \<open>Loops\<close>

lemma for_loop_invariant:
  assumes "I s"
    and "\<And>x s s' r. x \<in> set xs \<Longrightarrow> I s \<Longrightarrow> body x s = (s', r) \<Longrightarrow> I s'"
  shows "I (fst (for_loop body xs s))"
  using assms
proof (induction xs arbitrary: s)
  case Nil
  then show ?case by simp
next
  case (Cons x xs)
  obtain s1 r where b: "body x s = (s1, r)" by (cases "body x s")
  have s1: "I s1" using Cons.prems b by auto
  show ?case
  proof (cases r)
    case None
    have "I (fst (for_loop body xs s1))"
      using Cons.IH [OF s1] Cons.prems(2) by auto
    with b None show ?thesis by simp
  next
    case (Some e)
    with b s1 show ?thesis by simp
  qed
qed

lemma for_loop_total:
  assumes "I s"
    and "\<And>x s. x \<in> set xs \<Longrightarrow> I s \<Longrightarrow> snd (body x s) = None \<and> I (fst (body x s))"
  shows "snd (for_loop body xs s) = None \<and> I (fst (for_loop body xs s))"
  using assms
proof (induction xs arbitrary: s)
  case Nil
  then show ?case by simp
next
  case (Cons x xs)
  obtain s1 r where b: "body x s = (s1, r)" by (cases "body x s")
  have s1: "r = None \<and> I s1" using Cons.prems(2) [of x s] Cons.prems(1) b by simp
  have "snd (for_loop body xs s1) = None \<and> I (fst (for_loop body xs s1))"
    using Cons.IH [of s1] s1 Cons.prems(2) by simp
  with b s1 show ?case by simp
qed

subsection \<open>Dictionaries\<close>

lemma getitem_setitem:
  "getitem (setitem d k v) k' = (if k' = k then Inr v else getitem d k')"
  by (simp add: getitem_def setitem_def update_conv')

subsection \<open>The label column\<close>

lemma labeled_item_text: "labeled_item item \<Longrightarrow> \<exists>t. subscript item ''text'' = Inr t"
  by (cases item) (auto simp: labeled_item_def getitem_def)

lemma labeled_item_label: "labeled_item item \<Longrightarrow> \<exists>l. item_label item = Inr l"
  by (cases item) (auto simp: labeled_item_def item_label_def getitem_def)

lemma dataset_columns_total:
  assumes "\<And>item. item \<in> set items \<Longrightarrow> labeled_item item"
  shows "\<exists>texts labels. dataset_columns items = Inr (texts, labels)"
proof -
  obtain texts where t: "comprehension (\<lambda>item. subscript item ''text'') items = Inr texts"
    using comprehension_total [of items "\<lambda>item. subscript item ''text''"]
      assms labeled_item_text by blast
  obtain labels where l: "comprehension item_label items = Inr labels"
    using comprehension_total [of items item_label] assms labeled_item_label by blast
  show ?thesis
    by (simp add: dataset_columns_def t l)
qed

lemma dataset_columns_labels:
  assumes "dataset_columns items = Inr (texts, labels)"
  shows "comprehension item_label items = Inr labels"
  using assms by (auto simp: dataset_columns_def split: sum.splits)

lemma item_label_cases:
  assumes "item_label item = Inr l"
  shows "(l = 0 \<longleftrightarrow> subscript item ''sentiment'' = Inr (PStr ''Negative''))
    \<and> (l = 1 \<longleftrightarrow> subscript item ''sentiment'' \<noteq> Inr (PStr ''Negative''))"
  using assms by (auto simp: item_label_def label_of_def split: sum.splits if_splits)

subsection \<open>Elasticsearch notebook: what the loops do to a record\<close>

lemma index_calls_append: "index_calls (xs @ ys) = index_calls xs @ index_calls ys"
  by (induction xs rule: index_calls.induct) simp_all

lemma to_sql_calls_append: "to_sql_calls (xs @ ys) = to_sql_calls xs @ to_sql_calls ys"
  by (induction xs rule: to_sql_calls.induct) simp_all

lemma sentiment_of_cases:
  "(sentiment_of p = ''negative'' \<longleftrightarrow> p < 0)
   \<and> (sentiment_of p = ''neutral'' \<longleftrightarrow> p = 0)
   \<and> (sentiment_of p = ''positive'' \<longleftrightarrow> 0 < p)"
  by (simp add: sentiment_of_def)

lemma sentiment_of_range: "sentiment_of p \<in> {''negative'', ''neutral'', ''positive''}"
  by (simp add: sentiment_of_def)

lemma index_step_calls:
  assumes "index_step TextBlob es_index a s = (s', r)"
  shows "index_calls (calls s') = index_calls (calls s) \<or>
     (\<exists>t pol subj. getitem (heap s a) ''text'' = Inr t \<and> TextBlob t = Inr (pol, subj)
        \<and> index_calls (calls s') = index_calls (calls s) @
            [setitem (setitem (setitem (heap s a)
               ''polarity'' (PFloat (round_ndigits pol 4)))
               ''subjectivity'' (PFloat (round_ndigits subj 4)))
               ''sentiment'' (PStr (sentiment_of (round_ndigits pol 4)))])"
  using assms
  by (auto simp: index_step_def Let_def called_def index_calls_append
      split: sum.splits prod.splits)

lemma index_step_frame:
  "index_step TextBlob es_index a s = (s', r) \<Longrightarrow>
   k \<notin> {''polarity'', ''subjectivity'', ''sentiment''} \<Longrightarrow>
     getitem (heap s' b) k = getitem (heap s b) k"
  by (auto simp: index_step_def Let_def called_def getitem_setitem split: sum.splits prod.splits)

lemma clean_step_frame:
  "clean_step cew a s = (s', r) \<Longrightarrow> k \<noteq> ''text'' \<Longrightarrow>
     getitem (heap s' b) k = getitem (heap s b) k"
  by (auto simp: clean_step_def Let_def called_def getitem_setitem split: sum.splits)

lemma clean_step_index_calls:
  "clean_step cew a s = (s', r) \<Longrightarrow> index_calls (calls s') = index_calls (calls s)"
  by (auto simp: clean_step_def Let_def called_def index_calls_append split: sum.splits)

lemma clean_loop_list:
  "for_loop (clean_step cew) xs s = (s', None) \<Longrightarrow>
     clean_text_elements_dict s' = clean_text_elements_dict s @ xs"
proof (induction xs arbitrary: s)
  case Nil
  then show ?case by simp
next
  case (Cons x xs)
  obtain s1 r where b: "clean_step cew x s = (s1, r)" by (cases "clean_step cew x s")
  with Cons.prems have r: "r = None" and l: "for_loop (clean_step cew) xs s1 = (s', None)"
    by (auto split: option.splits)
  from b r have "clean_text_elements_dict s1 = clean_text_elements_dict s @ [x]"
    by (auto simp: clean_step_def Let_def called_def split: sum.splits)
  with Cons.IH [OF l] show ?case by simp
qed

lemma clean_loop_frame:
  assumes "k \<noteq> ''text''"
  shows "getitem (heap (fst (for_loop (clean_step cew) xs s)) b) k = getitem (heap s b) k"
  by (rule for_loop_invariant [where I = "\<lambda>s'. getitem (heap s' b) k = getitem (heap s b) k"])
    (use assms clean_step_frame in auto)

lemma clean_loop_index_calls:
  "index_calls (calls (fst (for_loop (clean_step cew) xs s))) = index_calls (calls s)"
  by (rule for_loop_invariant
      [where I = "\<lambda>s'. index_calls (calls s') = index_calls (calls s)"])
    (use clean_step_index_calls in auto)

lemma index_loop_frame:
  assumes "k \<notin> {''polarity'', ''subjectivity'', ''sentiment''}"
  shows "getitem (heap (fst (for_loop (index_step TextBlob es_index) xs s)) b) k
    = getitem (heap s b) k"
  by (rule for_loop_invariant [where I = "\<lambda>s'. getitem (heap s' b) k = getitem (heap s b) k"])
    (use assms index_step_frame in auto)

lemma clean_and_load_run:
  "clean_and_load cew TextBlob es_index tds h =
     (if 4 < length tds then
        (case for_loop (clean_step cew) tds \<lparr>calls = [], heap = h, clean_text_elements_dict = []\<rparr> of
           (s1, Some e) \<Rightarrow> (s1, Some e)
         | (s1, None) \<Rightarrow> for_loop (index_step TextBlob es_index) tds s1)
      else (\<lparr>calls = [], heap = h, clean_text_elements_dict = []\<rparr>, Some IndexError))"
proof -
  let ?s0 = "\<lparr>calls = [], heap = h, clean_text_elements_dict = []\<rparr>"
  obtain s1 r where c: "for_loop (clean_step cew) tds ?s0 = (s1, r)"
    by (cases "for_loop (clean_step cew) tds ?s0")
  show ?thesis
  proof (cases r)
    case None
    then have "clean_text_elements_dict s1 = tds"
      using clean_loop_list [of cew tds ?s0 s1] c by simp
    with c None show ?thesis
      by (simp add: clean_and_load_def then_run_def print_fifth_def)
  next
    case (Some e)
    with c show ?thesis
      by (simp add: clean_and_load_def then_run_def print_fifth_def)
  qed
qed

lemma clean_and_load_frame:
  assumes "k \<notin> {''text'', ''polarity'', ''subjectivity'', ''sentiment''}"
  shows "getitem (heap (fst (clean_and_load cew TextBlob es_index tds h)) a) k = getitem (h a) k"
proof -
  let ?s0 = "\<lparr>calls = [], heap = h, clean_text_elements_dict = []\<rparr>"
  obtain s1 r where c: "for_loop (clean_step cew) tds ?s0 = (s1, r)"
    by (cases "for_loop (clean_step cew) tds ?s0")
  have 1: "getitem (heap s1 a) k = getitem (h a) k"
    using clean_loop_frame [of k cew tds ?s0 a] assms c by simp
  show ?thesis
  proof (cases r)
    case None
    then show ?thesis
      using c 1 index_loop_frame [of k TextBlob es_index tds s1 a] assms
      by (simp add: clean_and_load_run)
  next
    case (Some e)
    then show ?thesis
      using c 1 by (simp add: clean_and_load_run)
  qed
qed

lemma clean_loop_total:
  fixes s :: es_notebook
  assumes "\<forall>a \<in> set tds. \<exists>t. getitem (heap s a) ''text'' = Inr (PStr t)"
    and "\<forall>t. \<exists>t'. cew (PStr t) = Inr (PStr t')"
  shows "snd (for_loop (clean_step cew) tds s) = None
    \<and> (\<forall>a \<in> set tds. \<exists>t. getitem (heap (fst (for_loop (clean_step cew) tds s)) a) ''text'' = Inr (PStr t))"
proof (rule for_loop_total
    [where I = "\<lambda>s :: es_notebook. \<forall>a \<in> set tds. \<exists>t. getitem (heap s a) ''text'' = Inr (PStr t)"])
  show "\<forall>a \<in> set tds. \<exists>t. getitem (heap s a) ''text'' = Inr (PStr t)" by (rule assms)
next
  fix x and s :: es_notebook
  assume x: "x \<in> set tds"
    and I: "\<forall>a \<in> set tds. \<exists>t. getitem (heap s a) ''text'' = Inr (PStr t)"
  from x I obtain t where t: "getitem (heap s x) ''text'' = Inr (PStr t)" by blast
  from assms(2) obtain t' where t': "cew (PStr t) = Inr (PStr t')" by blast
  show "snd (clean_step cew x s) = None \<and>
     (\<forall>a \<in> set tds. \<exists>t. getitem (heap (fst (clean_step cew x s)) a) ''text'' = Inr (PStr t))"
    using I by (simp add: clean_step_def t t' getitem_setitem Let_def called_def)
qed

lemma index_loop_total:
  fixes s :: es_notebook
  assumes "\<forall>a \<in> set elems. \<exists>t. getitem (heap s a) ''text'' = Inr (PStr t)"
    and "\<forall>t. \<exists>p. TextBlob (PStr t) = Inr p"
    and "\<forall>d. es_index d = None"
  shows "snd (for_loop (index_step TextBlob es_index) elems s) = None
    \<and> (\<forall>a \<in> set elems. \<exists>t. getitem (heap (fst (for_loop (index_step TextBlob es_index) elems s)) a) ''text'' = Inr (PStr t))"
proof (rule for_loop_total
    [where I = "\<lambda>s :: es_notebook. \<forall>a \<in> set elems. \<exists>t. getitem (heap s a) ''text'' = Inr (PStr t)"])
  show "\<forall>a \<in> set elems. \<exists>t. getitem (heap s a) ''text'' = Inr (PStr t)" by (rule assms)
next
  fix x and s :: es_notebook
  assume x: "x \<in> set elems"
    and I: "\<forall>a \<in> set elems. \<exists>t. getitem (heap s a) ''text'' = Inr (PStr t)"
  from x I obtain t where t: "getitem (heap s x) ''text'' = Inr (PStr t)" by blast
  from assms(2) obtain pol subj where p: "TextBlob (PStr t) = Inr (pol, subj)" by (metis surj_pair)
  show "snd (index_step TextBlob es_index x s) = None \<and>
     (\<forall>a \<in> set elems. \<exists>t. getitem (heap (fst (index_step TextBlob es_index x s)) a) ''text'' = Inr (PStr t))"
    using I assms(3) by (simp add: index_step_def t p getitem_setitem Let_def called_def)
qed

lemma clean_and_load_total:
  assumes "4 < length tds"
    and "\<forall>a \<in> set tds. \<exists>t. getitem (h a) ''text'' = Inr (PStr t)"
    and "\<forall>t. \<exists>t'. cew (PStr t) = Inr (PStr t')"
    and "\<forall>t. \<exists>p. TextBlob (PStr t) = Inr p"
    and "\<forall>d. es_index d = None"
  shows "snd (clean_and_load cew TextBlob es_index tds h) = None"
proof -
  let ?s0 = "\<lparr>calls = [], heap = h, clean_text_elements_dict = []\<rparr>"
  obtain s1 r where c: "for_loop (clean_step cew) tds ?s0 = (s1, r)"
    by (cases "for_loop (clean_step cew) tds ?s0")
  have 1: "r = None" "\<forall>a \<in> set tds. \<exists>t. getitem (heap s1 a) ''text'' = Inr (PStr t)"
    using clean_loop_total [of tds ?s0 cew] assms(2,3) c by simp_all
  show ?thesis
    using index_loop_total [of tds s1 TextBlob es_index] 1 assms(1,4,5) c
    by (simp add: clean_and_load_run)
qed

lemma index_step_success:
  "index_step TextBlob es_index a s = (s', None) \<Longrightarrow>
     length (index_calls (calls s')) = Suc (length (index_calls (calls s)))"
  by (auto simp: index_step_def Let_def called_def index_calls_append
      split: sum.splits prod.splits)

lemma index_loop_success:
  "for_loop (index_step TextBlob es_index) elems s = (s', None) \<Longrightarrow>
     length (index_calls (calls s')) = length (index_calls (calls s)) + length elems"
proof (induction elems arbitrary: s)
  case Nil
  then show ?case by simp
next
  case (Cons x xs)
  obtain s1 r where b: "index_step TextBlob es_index x s = (s1, r)"
    by (cases "index_step TextBlob es_index x s")
  with Cons.prems have r: "r = None"
    and l: "for_loop (index_step TextBlob es_index) xs s1 = (s', None)"
    by (auto split: option.splits)
  from b r have "length (index_calls (calls s1)) = Suc (length (index_calls (calls s)))"
    using index_step_success by blast
  with Cons.IH [OF l] show ?case by simp
qed

lemma clean_and_load_returned:
  assumes "clean_and_load cew TextBlob es_index tds h = (s', None)"
  obtains s1 where "4 < length tds"
    and "for_loop (clean_step cew) tds \<lparr>calls = [], heap = h, clean_text_elements_dict = []\<rparr>
      = (s1, None)"
    and "for_loop (index_step TextBlob es_index) tds s1 = (s', None)"
proof -
  let ?s0 = "\<lparr>calls = [], heap = h, clean_text_elements_dict = []\<rparr>"
  obtain s1 r where c: "for_loop (clean_step cew) tds ?s0 = (s1, r)"
    by (cases "for_loop (clean_step cew) tds ?s0")
  from assms c have "4 < length tds \<and> r = None
      \<and> for_loop (index_step TextBlob es_index) tds s1 = (s', None)"
    by (auto simp: clean_and_load_run split: if_splits option.splits)
  with c that show ?thesis by simp
qed

lemma clean_and_load_success:
  assumes "clean_and_load cew TextBlob es_index tds h = (s', None)"
  shows "length (index_calls (calls s')) = length tds \<and> 4 < length tds"
proof -
  let ?s0 = "\<lparr>calls = [], heap = h, clean_text_elements_dict = []\<rparr>"
  from assms obtain s1 where n: "4 < length tds"
    and c: "for_loop (clean_step cew) tds ?s0 = (s1, None)"
    and l: "for_loop (index_step TextBlob es_index) tds s1 = (s', None)"
    by (rule clean_and_load_returned)
  have "index_calls (calls s1) = []"
    using clean_loop_index_calls [of cew tds ?s0] c by simp
  then show ?thesis
    using index_loop_success [OF l] n by simp
qed

lemma index_loop_documents:
  fixes s :: es_notebook
  assumes "index_calls (calls s) = []"
  shows "\<forall>doc \<in> set (index_calls (calls (fst (for_loop (index_step TextBlob es_index) elems s)))).
      \<exists>a \<in> set elems. \<exists>d t pol subj.
        (\<forall>k. k \<notin> {''polarity'', ''subjectivity'', ''sentiment''} \<longrightarrow>
           getitem d k = getitem (heap s a) k)
        \<and> getitem d ''text'' = Inr t \<and> TextBlob t = Inr (pol, subj)
        \<and> doc = setitem (setitem (setitem d
               ''polarity'' (PFloat (round_ndigits pol 4)))
               ''subjectivity'' (PFloat (round_ndigits subj 4)))
               ''sentiment'' (PStr (sentiment_of (round_ndigits pol 4)))"
proof -
  define K where "K = {''polarity'', ''subjectivity'', ''sentiment''}"
  define P where "P = (\<lambda>doc. \<exists>a \<in> set elems. \<exists>d t pol subj.
        (\<forall>k. k \<notin> K \<longrightarrow> getitem d k = getitem (heap s a) k)
        \<and> getitem d ''text'' = Inr t \<and> TextBlob t = Inr (pol, subj)
        \<and> doc = setitem (setitem (setitem d
               ''polarity'' (PFloat (round_ndigits pol 4)))
               ''subjectivity'' (PFloat (round_ndigits subj 4)))
               ''sentiment'' (PStr (sentiment_of (round_ndigits pol 4))))"
  define I where "I = (\<lambda>s' :: es_notebook.
     (\<forall>b k. k \<notin> K \<longrightarrow> getitem (heap s' b) k = getitem (heap s b) k)
   \<and> (\<forall>doc \<in> set (index_calls (calls s')). P doc))"
  have "I (fst (for_loop (index_step TextBlob es_index) elems s))"
  proof (rule for_loop_invariant [where I = I])
    show "I s" using assms by (simp add: I_def)
  next
    fix x and s1 s2 :: es_notebook and r
    assume x: "x \<in> set elems" and I1: "I s1"
      and st: "index_step TextBlob es_index x s1 = (s2, r)"
    have f1: "\<forall>b k. k \<notin> K \<longrightarrow> getitem (heap s1 b) k = getitem (heap s b) k"
      and d1: "\<forall>doc \<in> set (index_calls (calls s1)). P doc"
      using I1 by (simp_all add: I_def)
    have frame: "\<forall>b k. k \<notin> K \<longrightarrow> getitem (heap s2 b) k = getitem (heap s b) k"
      using index_step_frame [OF st] f1 unfolding K_def by simp
    from index_step_calls [OF st] consider
      (same) "index_calls (calls s2) = index_calls (calls s1)"
      | (new) t pol subj where "getitem (heap s1 x) ''text'' = Inr t" "TextBlob t = Inr (pol, subj)"
          "index_calls (calls s2) = index_calls (calls s1) @
            [setitem (setitem (setitem (heap s1 x)
               ''polarity'' (PFloat (round_ndigits pol 4)))
               ''subjectivity'' (PFloat (round_ndigits subj 4)))
               ''sentiment'' (PStr (sentiment_of (round_ndigits pol 4)))]"
      by blast
    then have "\<forall>doc \<in> set (index_calls (calls s2)). P doc"
    proof cases
      case same
      with d1 show ?thesis by simp
    next
      case new
      have "P (setitem (setitem (setitem (heap s1 x)
               ''polarity'' (PFloat (round_ndigits pol 4)))
               ''subjectivity'' (PFloat (round_ndigits subj 4)))
               ''sentiment'' (PStr (sentiment_of (round_ndigits pol 4))))"
        unfolding P_def
        by (rule bexI [OF _ x], rule exI [of _ "heap s1 x"], rule exI [of _ t],
            rule exI [of _ pol], rule exI [of _ subj]) (use f1 new(1,2) in simp)
      with d1 new(3) show ?thesis by simp
    qed
    with frame show "I s2" by (simp add: I_def)
  qed
  then show ?thesis
    unfolding I_def P_def K_def by blast
qed

lemma clean_loop_others:
  "a \<notin> set xs \<Longrightarrow> heap (fst (for_loop (clean_step cew) xs s)) a = heap s a"
  by (rule for_loop_invariant [where I = "\<lambda>s'. heap s' a = heap s a"])
    (auto simp: clean_step_def Let_def called_def split: sum.splits)

lemma index_loop_others:
  "a \<notin> set xs \<Longrightarrow> heap (fst (for_loop (index_step TextBlob es_index) xs s)) a = heap s a"
  by (rule for_loop_invariant [where I = "\<lambda>s'. heap s' a = heap s a"])
    (auto simp: index_step_def Let_def called_def split: sum.splits prod.splits)

lemma clean_step_returned:
  assumes "clean_step cew x s = (s', None)"
  shows "\<exists>t t'. getitem (heap s x) ''text'' = Inr t \<and> cew t = Inr t'
    \<and> heap s' = (heap s)(x := setitem (heap s x) ''text'' t')"
  using assms by (auto simp: clean_step_def Let_def called_def split: sum.splits)

lemma clean_loop_records:
  assumes "for_loop (clean_step cew) xs s = (s', None)" and "distinct xs" and "a \<in> set xs"
  shows "\<exists>t t'. getitem (heap s a) ''text'' = Inr t \<and> cew t = Inr t'
    \<and> heap s' a = setitem (heap s a) ''text'' t'"
  using assms
proof (induction xs arbitrary: s)
  case Nil
  then show ?case by simp
next
  case (Cons x xs)
  obtain s1 r where b: "clean_step cew x s = (s1, r)" by (cases "clean_step cew x s")
  with Cons.prems(1) have r: "r = None" and l: "for_loop (clean_step cew) xs s1 = (s', None)"
    by (auto split: option.splits)
  from clean_step_returned b r obtain t t' where t: "getitem (heap s x) ''text'' = Inr t"
    "cew t = Inr t'" "heap s1 = (heap s)(x := setitem (heap s x) ''text'' t')"
    by blast
  from Cons.prems(2) have d: "x \<notin> set xs" "distinct xs" by simp_all
  show ?case
  proof (cases "a = x")
    case True
    have "heap s' x = heap s1 x"
      using clean_loop_others [OF d(1), of cew s1] l by simp
    with t True show ?thesis by simp
  next
    case False
    with Cons.prems(3) have a: "a \<in> set xs" by simp
    from Cons.IH [OF l d(2) a] t(3) False show ?thesis by simp
  qed
qed

lemma index_step_returned:
  assumes "index_step TextBlob es_index x s = (s', None)"
  shows "\<exists>t pol subj. getitem (heap s x) ''text'' = Inr t \<and> TextBlob t = Inr (pol, subj)
    \<and> heap s' = (heap s)(x := setitem (setitem (setitem (heap s x)
         ''polarity'' (PFloat (round_ndigits pol 4)))
         ''subjectivity'' (PFloat (round_ndigits subj 4)))
         ''sentiment'' (PStr (sentiment_of (round_ndigits pol 4))))
    \<and> index_calls (calls s') = index_calls (calls s) @ [setitem (setitem (setitem (heap s x)
         ''polarity'' (PFloat (round_ndigits pol 4)))
         ''subjectivity'' (PFloat (round_ndigits subj 4)))
         ''sentiment'' (PStr (sentiment_of (round_ndigits pol 4)))]"
  using assms
  by (auto simp: index_step_def Let_def called_def index_calls_append
      split: sum.splits prod.splits)

lemma index_loop_records:
  assumes "for_loop (index_step TextBlob es_index) xs s = (s', None)" and "distinct xs"
    and "a \<in> set xs"
  shows "\<exists>t pol subj. getitem (heap s a) ''text'' = Inr t \<and> TextBlob t = Inr (pol, subj)
    \<and> heap s' a = setitem (setitem (setitem (heap s a)
         ''polarity'' (PFloat (round_ndigits pol 4)))
         ''subjectivity'' (PFloat (round_ndigits subj 4)))
         ''sentiment'' (PStr (sentiment_of (round_ndigits pol 4)))"
  using assms
proof (induction xs arbitrary: s)
  case Nil
  then show ?case by simp
next
  case (Cons x xs)
  obtain s1 r where b: "index_step TextBlob es_index x s = (s1, r)"
    by (cases "index_step TextBlob es_index x s")
  with Cons.prems(1) have r: "r = None"
    and l: "for_loop (index_step TextBlob es_index) xs s1 = (s', None)"
    by (auto split: option.splits)
  from index_step_returned b r obtain t pol subj where t:
    "getitem (heap s x) ''text'' = Inr t" "TextBlob t = Inr (pol, subj)"
    "heap s1 = (heap s)(x := setitem (setitem (setitem (heap s x)
         ''polarity'' (PFloat (round_ndigits pol 4)))
         ''subjectivity'' (PFloat (round_ndigits subj 4)))
         ''sentiment'' (PStr (sentiment_of (round_ndigits pol 4))))"
    by blast
  from Cons.prems(2) have d: "x \<notin> set xs" "distinct xs" by simp_all
  show ?case
  proof (cases "a = x")
    case True
    have "heap s' x = heap s1 x"
      using index_loop_others [OF d(1), of TextBlob es_index s1] l by simp
    with t True show ?thesis by simp
  next
    case False
    with Cons.prems(3) have a: "a \<in> set xs" by simp
    from Cons.IH [OF l d(2) a] t(3) False show ?thesis by simp
  qed
qed

lemma index_loop_calls:
  assumes "for_loop (index_step TextBlob es_index) xs s = (s', None)" and "distinct xs"
  shows "index_calls (calls s') = index_calls (calls s) @ map (heap s') xs"
  using assms
proof (induction xs arbitrary: s)
  case Nil
  then show ?case by simp
next
  case (Cons x xs)
  obtain s1 r where b: "index_step TextBlob es_index x s = (s1, r)"
    by (cases "index_step TextBlob es_index x s")
  with Cons.prems(1) have r: "r = None"
    and l: "for_loop (index_step TextBlob es_index) xs s1 = (s', None)"
    by (auto split: option.splits)
  from Cons.prems(2) have d: "x \<notin> set xs" "distinct xs" by simp_all
  from index_step_returned b r have "index_calls (calls s1) = index_calls (calls s) @ [heap s1 x]"
    by fastforce
  moreover have "heap s' x = heap s1 x"
    using index_loop_others [OF d(1), of TextBlob es_index s1] l by simp
  ultimately show ?case
    using Cons.IH [OF l d(2)] by simp
qed

lemma index_step_document:
  assumes "index_step TextBlob es_index x s = (s', r)"
    and "doc \<in> set (index_calls (calls s'))"
  shows "doc \<in> set (index_calls (calls s))
    \<or> (\<exists>t pol subj. getitem (heap s x) ''text'' = Inr t \<and> TextBlob t = Inr (pol, subj)
          \<and> doc = setitem (setitem (setitem (heap s x)
         ''polarity'' (PFloat (round_ndigits pol 4)))
         ''subjectivity'' (PFloat (round_ndigits subj 4)))
         ''sentiment'' (PStr (sentiment_of (round_ndigits pol 4))))"
  using assms
  by (auto simp: index_step_def Let_def called_def index_calls_append
      split: sum.splits prod.splits)

lemma index_step_others:
  "index_step TextBlob es_index x s = (s', r) \<Longrightarrow> a \<noteq> x \<Longrightarrow> heap s' a = heap s a"
  by (auto simp: index_step_def Let_def called_def split: sum.splits prod.splits)

lemma index_loop_document:
  assumes "distinct xs"
    and "doc \<in> set (index_calls (calls (fst (for_loop (index_step TextBlob es_index) xs s))))"
  shows "doc \<in> set (index_calls (calls s))
    \<or> (\<exists>a \<in> set xs. \<exists>t pol subj. getitem (heap s a) ''text'' = Inr t
          \<and> TextBlob t = Inr (pol, subj) \<and> doc = setitem (setitem (setitem (heap s a)
         ''polarity'' (PFloat (round_ndigits pol 4)))
         ''subjectivity'' (PFloat (round_ndigits subj 4)))
         ''sentiment'' (PStr (sentiment_of (round_ndigits pol 4))))"
  using assms
proof (induction xs arbitrary: s)
  case Nil
  then show ?case by simp
next
  case (Cons x xs)
  obtain s1 r where b: "index_step TextBlob es_index x s = (s1, r)"
    by (cases "index_step TextBlob es_index x s")
  from Cons.prems(1) have d: "x \<notin> set xs" "distinct xs" by simp_all
  show ?case
  proof (cases r)
    case (Some e)
    with b Cons.prems(2) have "doc \<in> set (index_calls (calls s1))" by simp
    from index_step_document [OF b this] show ?thesis by auto
  next
    case None
    with b Cons.prems(2) have
      "doc \<in> set (index_calls (calls (fst (for_loop (index_step TextBlob es_index) xs s1))))"
      by simp
    from Cons.IH [OF d(2) this] consider
      (old) "doc \<in> set (index_calls (calls s1))"
      | (new) a t pol subj where "a \<in> set xs" "getitem (heap s1 a) ''text'' = Inr t"
          "TextBlob t = Inr (pol, subj)" "doc = setitem (setitem (setitem (heap s1 a)
         ''polarity'' (PFloat (round_ndigits pol 4)))
         ''subjectivity'' (PFloat (round_ndigits subj 4)))
         ''sentiment'' (PStr (sentiment_of (round_ndigits pol 4)))"
      by blast
    then show ?thesis
    proof cases
      case old
      from index_step_document [OF b this] show ?thesis by auto
    next
      case new
      from new(1) d(1) have "a \<noteq> x" by auto
      then have "heap s1 a = heap s a" using index_step_others [OF b] by simp
      with new have "\<exists>a \<in> set (x # xs). \<exists>t pol subj. getitem (heap s a) ''text'' = Inr t
          \<and> TextBlob t = Inr (pol, subj) \<and> doc = setitem (setitem (setitem (heap s a)
         ''polarity'' (PFloat (round_ndigits pol 4)))
         ''subjectivity'' (PFloat (round_ndigits subj 4)))
         ''sentiment'' (PStr (sentiment_of (round_ndigits pol 4)))"
        by (intro bexI [of _ a] exI [of _ t] exI [of _ pol] exI [of _ subj]) simp_all
      then show ?thesis by (rule disjI2)
    qed
  qed
qed

lemma clean_and_load_document:
  assumes "distinct tds"
    and "doc \<in> set (index_calls (calls (fst (clean_and_load cew TextBlob es_index tds h))))"
  shows "\<exists>a \<in> set tds. \<exists>t t' pol subj.
      getitem (h a) ''text'' = Inr t \<and> cew t = Inr t' \<and> TextBlob t' = Inr (pol, subj)
    \<and> doc = setitem (setitem (setitem (setitem (h a) ''text'' t')
         ''polarity'' (PFloat (round_ndigits pol 4)))
         ''subjectivity'' (PFloat (round_ndigits subj 4)))
         ''sentiment'' (PStr (sentiment_of (round_ndigits pol 4)))"
proof -
  let ?s0 = "\<lparr>calls = [], heap = h, clean_text_elements_dict = []\<rparr>"
  obtain s1 r where c: "for_loop (clean_step cew) tds ?s0 = (s1, r)"
    by (cases "for_loop (clean_step cew) tds ?s0")
  have e: "index_calls (calls s1) = []"
    using clean_loop_index_calls [of cew tds ?s0] c by simp
  have n: "4 < length tds"
    using assms(2) by (cases "4 < length tds") (simp_all add: clean_and_load_run)
  have r: "r = None"
  proof (cases r)
    case (Some x)
    with c e n assms(2) show ?thesis by (simp add: clean_and_load_run)
  qed simp
  have "doc \<in> set (index_calls (calls (fst (for_loop (index_step TextBlob es_index) tds s1))))"
    using assms(2) c r n by (simp add: clean_and_load_run)
  from index_loop_document [OF assms(1) this] e obtain a t' pol subj where a: "a \<in> set tds"
    and t': "getitem (heap s1 a) ''text'' = Inr t'" "TextBlob t' = Inr (pol, subj)"
    and doc: "doc = setitem (setitem (setitem (heap s1 a)
         ''polarity'' (PFloat (round_ndigits pol 4)))
         ''subjectivity'' (PFloat (round_ndigits subj 4)))
         ''sentiment'' (PStr (sentiment_of (round_ndigits pol 4)))"
    by auto
  from clean_loop_records [of cew tds ?s0 s1 a] c r assms(1) a obtain t t'' where t:
    "getitem (h a) ''text'' = Inr t" "cew t = Inr t''" "heap s1 a = setitem (h a) ''text'' t''"
    by auto
  from t(3) t'(1) have "t'' = t'" by (simp add: getitem_setitem)
  with t t' doc a show ?thesis
    by (intro bexI [of _ a] exI [of _ t] exI [of _ t'] exI [of _ pol] exI [of _ subj]) simp_all
qed

lemma clean_and_load_records:
  assumes "clean_and_load cew TextBlob es_index tds h = (s', None)" and "distinct tds"
    and "a \<in> set tds"
  shows "\<exists>t t' pol subj.
      getitem (h a) ''text'' = Inr t \<and> cew t = Inr t' \<and> TextBlob t' = Inr (pol, subj)
    \<and> heap s' a = setitem (setitem (setitem (setitem (h a) ''text'' t')
         ''polarity'' (PFloat (round_ndigits pol 4)))
         ''subjectivity'' (PFloat (round_ndigits subj 4)))
         ''sentiment'' (PStr (sentiment_of (round_ndigits pol 4)))"
proof -
  let ?s0 = "\<lparr>calls = [], heap = h, clean_text_elements_dict = []\<rparr>"
  from assms(1) obtain s1 where n: "4 < length tds"
    and c: "for_loop (clean_step cew) tds ?s0 = (s1, None)"
    and l: "for_loop (index_step TextBlob es_index) tds s1 = (s', None)"
    by (rule clean_and_load_returned)
  from clean_loop_records [OF c assms(2,3)] obtain t t'' where t:
    "getitem (h a) ''text'' = Inr t" "cew t = Inr t''" "heap s1 a = setitem (h a) ''text'' t''"
    by auto
  from index_loop_records [OF l assms(2,3)] obtain t' pol subj where t':
    "getitem (heap s1 a) ''text'' = Inr t'" "TextBlob t' = Inr (pol, subj)"
    "heap s' a = setitem (setitem (setitem (heap s1 a)
         ''polarity'' (PFloat (round_ndigits pol 4)))
         ''subjectivity'' (PFloat (round_ndigits subj 4)))
         ''sentiment'' (PStr (sentiment_of (round_ndigits pol 4)))"
    by auto
  from t(3) t'(1) have "t'' = t'" by (simp add: getitem_setitem)
  with t t' show ?thesis
    by (intro exI [of _ t] exI [of _ t'] exI [of _ pol] exI [of _ subj]) simp_all
qed

lemma clean_and_load_others:
  assumes "a \<notin> set tds"
  shows "heap (fst (clean_and_load cew TextBlob es_index tds h)) a = h a"
proof -
  let ?s0 = "\<lparr>calls = [], heap = h, clean_text_elements_dict = []\<rparr>"
  obtain s1 r where c: "for_loop (clean_step cew) tds ?s0 = (s1, r)"
    by (cases "for_loop (clean_step cew) tds ?s0")
  have 1: "heap s1 a = h a"
    using clean_loop_others [OF assms, of cew ?s0] c by simp
  show ?thesis
    using c 1 index_loop_others [OF assms, of TextBlob es_index s1]
    by (cases r) (simp_all add: clean_and_load_run)
qed

lemma clean_and_load_calls:
  assumes "clean_and_load cew TextBlob es_index tds h = (s', None)" and "distinct tds"
  shows "index_calls (calls s') = map (heap s') tds"
proof -
  let ?s0 = "\<lparr>calls = [], heap = h, clean_text_elements_dict = []\<rparr>"
  from assms(1) obtain s1 where c: "for_loop (clean_step cew) tds ?s0 = (s1, None)"
    and l: "for_loop (index_step TextBlob es_index) tds s1 = (s', None)"
    by (rule clean_and_load_returned)
  have "index_calls (calls s1) = []"
    using clean_loop_index_calls [of cew tds ?s0] c by simp
  with index_loop_calls [OF l assms(2)] show ?thesis by simp
qed

lemma sample_load_calls:
  "index_calls (calls
     (fst (for_loop (index_step sample_TextBlob sample_es_index) [0, 1] sample_cleaned)))
   = [[(''element_id'', PStr ''e0''), (''text'', PStr ''bad''),
       (''polarity'', PFloat (- 7 / 10)), (''subjectivity'', PFloat (6667 / 10000)),
       (''sentiment'', PStr ''negative'')],
      [(''element_id'', PStr ''e1''), (''text'', PStr ''Dec 13''),
       (''polarity'', PFloat 0), (''subjectivity'', PFloat 0),
       (''sentiment'', PStr ''neutral'')]]"
  by (simp add: index_step_def sample_cleaned_def sample_TextBlob_def sample_es_index_def
      called_def raised_def getitem_def setitem_def sentiment_of_def round_ndigits_def
      round_half_even_def Let_def)

subsection \<open>MySQL notebook\<close>

lemma partition_loop_success:
  "for_loop (partition_step partition_auto) docs s = (s', None) \<Longrightarrow>
     \<exists>parts. comprehension (\<lambda>d. partition_auto (path_join EXAMPLE_DOCS_FOLDER d)) docs = Inr parts
       \<and> elements s' = elements s @ concat parts
       \<and> to_sql_calls (calls s') = to_sql_calls (calls s)"
proof (induction docs arbitrary: s)
  case Nil
  then show ?case by simp
next
  case (Cons x xs)
  obtain s1 r where b: "partition_step partition_auto x s = (s1, r)"
    by (cases "partition_step partition_auto x s")
  with Cons.prems have r: "r = None"
    and l: "for_loop (partition_step partition_auto) xs s1 = (s', None)"
    by (auto split: option.splits)
  from b r obtain es where es: "partition_auto (path_join EXAMPLE_DOCS_FOLDER x) = Inr es"
    "elements s1 = elements s @ es" "to_sql_calls (calls s1) = to_sql_calls (calls s)"
    by (auto simp: partition_step_def Let_def called_def to_sql_calls_append split: sum.splits)
  from Cons.IH [OF l] obtain parts where
    "comprehension (\<lambda>d. partition_auto (path_join EXAMPLE_DOCS_FOLDER d)) xs = Inr parts"
    "elements s' = elements s1 @ concat parts"
    "to_sql_calls (calls s') = to_sql_calls (calls s1)"
    by blast
  with es show ?case by simp
qed

lemma partition_loop_to_sql_calls:
  "to_sql_calls (calls (fst (for_loop (partition_step partition_auto) docs s)))
    = to_sql_calls (calls s)"
  by (rule for_loop_invariant
      [where I = "\<lambda>s'. to_sql_calls (calls s') = to_sql_calls (calls s)"])
    (auto simp: partition_step_def Let_def called_def to_sql_calls_append split: sum.splits)

lemma load_into_mysql_run:
  "load_into_mysql partition_auto convert_to_dataframe to_sql read_sql_query q docs =
     (case for_loop (partition_step partition_auto) docs \<lparr>calls = [], elements = []\<rparr> of
        (s1, Some e) \<Rightarrow> (s1, Some e)
      | (s1, None) \<Rightarrow>
          (if elements s1 = [] then (s1, Some IndexError)
           else then_run (to_sql_step convert_to_dataframe to_sql)
                  (read_step read_sql_query q) s1))"
  by (simp add: load_into_mysql_def
      then_run_def [of "for_loop (partition_step partition_auto) docs"]
      then_run_def [of display_first] display_first_def
      split: prod.splits option.splits list.splits)

lemma to_sql_then_read:
  assumes "then_run (to_sql_step convert_to_dataframe to_sql) (read_step read_sql_query q) s
    = (s', r)"
    and "df \<in> set (to_sql_calls (calls s'))"
  shows "df \<in> set (to_sql_calls (calls s)) \<or> convert_to_dataframe (elements s) = Inr df"
  using assms
  by (auto simp: then_run_def to_sql_step_def read_step_def Let_def called_def
      to_sql_calls_append split: sum.splits option.splits prod.splits)

lemma load_into_mysql_stored:
  assumes "df \<in> set (to_sql_calls (calls (fst (load_into_mysql partition_auto
      convert_to_dataframe to_sql read_sql_query q docs))))"
  shows "\<exists>parts.
      comprehension (\<lambda>d. partition_auto (path_join EXAMPLE_DOCS_FOLDER d)) docs = Inr parts
    \<and> convert_to_dataframe (concat parts) = Inr df"
proof -
  let ?s0 = "\<lparr>calls = [], elements = []\<rparr>"
  obtain s1 r where c: "for_loop (partition_step partition_auto) docs ?s0 = (s1, r)"
    by (cases "for_loop (partition_step partition_auto) docs ?s0")
  have e: "to_sql_calls (calls s1) = []"
    using partition_loop_to_sql_calls [of partition_auto docs ?s0] c by simp
  have r: "r = None"
  proof (cases r)
    case (Some x)
    with c e assms show ?thesis by (simp add: load_into_mysql_run)
  qed simp
  from partition_loop_success [of partition_auto docs ?s0 s1] c r obtain parts where p:
    "comprehension (\<lambda>d. partition_auto (path_join EXAMPLE_DOCS_FOLDER d)) docs = Inr parts"
    "elements s1 = concat parts"
    by auto
  have n: "elements s1 \<noteq> []"
  proof
    assume "elements s1 = []"
    with c r e assms show False by (simp add: load_into_mysql_run)
  qed
  obtain s' r' where t: "then_run (to_sql_step convert_to_dataframe to_sql)
      (read_step read_sql_query q) s1 = (s', r')"
    by (cases "then_run (to_sql_step convert_to_dataframe to_sql) (read_step read_sql_query q) s1")
  with c r n assms have "df \<in> set (to_sql_calls (calls s'))"
    by (simp add: load_into_mysql_run)
  from to_sql_then_read [OF t this] e have "convert_to_dataframe (elements s1) = Inr df"
    by simp
  with p show ?thesis by auto
qed

lemma load_into_mysql_success:
  assumes "load_into_mysql partition_auto convert_to_dataframe to_sql read_sql_query q docs
    = (s', None)"
  shows "\<exists>parts df.
      comprehension (\<lambda>d. partition_auto (path_join EXAMPLE_DOCS_FOLDER d)) docs = Inr parts
    \<and> concat parts \<noteq> []
    \<and> elements s' = concat parts
    \<and> convert_to_dataframe (concat parts) = Inr df
    \<and> to_sql_calls (calls s') = [df]"
proof -
  let ?s0 = "\<lparr>calls = [], elements = []\<rparr>"
  obtain s1 r where c: "for_loop (partition_step partition_auto) docs ?s0 = (s1, r)"
    by (cases "for_loop (partition_step partition_auto) docs ?s0")
  from assms c have r: "r = None" and n: "elements s1 \<noteq> []"
    and rest: "then_run (to_sql_step convert_to_dataframe to_sql) (read_step read_sql_query q) s1
      = (s', None)"
    by (auto simp: load_into_mysql_run split: option.splits if_splits)
  from partition_loop_success [of partition_auto docs ?s0 s1] c r obtain parts where p:
    "comprehension (\<lambda>d. partition_auto (path_join EXAMPLE_DOCS_FOLDER d)) docs = Inr parts"
    "elements s1 = concat parts" "to_sql_calls (calls s1) = []"
    by auto
  from rest obtain df where "convert_to_dataframe (elements s1) = Inr df"
    "to_sql_calls (calls s') = to_sql_calls (calls s1) @ [df]" "elements s' = elements s1"
    by (auto simp: then_run_def to_sql_step_def read_step_def Let_def called_def
        to_sql_calls_append split: sum.splits option.splits prod.splits)
  with p n show ?thesis by simp
qed

subsection \<open>Sample runs\<close>

lemma sample_load_into_mysql:
  "snd (load_into_mysql sample_partition sample_convert sample_to_sql sample_read ''q''
        [''fake-email.eml'', ''fake.docx'']) = None
   \<and> to_sql_calls (calls (fst (load_into_mysql sample_partition sample_convert sample_to_sql
        sample_read ''q'' [''fake-email.eml'', ''fake.docx''])))
      = [[[(''text'', PStr ''../../example-docs/fake-email.eml'')], [(''text'', PStr ''more'')],
          [(''text'', PStr ''../../example-docs/fake.docx'')], [(''text'', PStr ''more'')]]]"
  by (simp add: load_into_mysql_def then_run_def partition_step_def display_first_def
      to_sql_step_def read_step_def
      sample_partition_def sample_convert_def sample_to_sql_def sample_read_def sample_element_def
      called_def raised_def path_join_def EXAMPLE_DOCS_FOLDER_def Let_def)

lemma index_loop_scored:
  fixes s :: es_notebook
  assumes "index_calls (calls s) = []"
    and "doc \<in> set (index_calls (calls (fst (for_loop (index_step TextBlob es_index) elems s))))"
  shows "\<exists>d t pol subj. getitem d ''text'' = Inr t \<and> TextBlob t = Inr (pol, subj) \<and>
    doc = setitem (setitem (setitem d
       ''polarity'' (PFloat (round_ndigits pol 4)))
       ''subjectivity'' (PFloat (round_ndigits subj 4)))
       ''sentiment'' (PStr (sentiment_of (round_ndigits pol 4)))"
proof -
  have "\<exists>a \<in> set elems. \<exists>d t pol subj.
        (\<forall>k. k \<notin> {''polarity'', ''subjectivity'', ''sentiment''} \<longrightarrow>
           getitem d k = getitem (heap s a) k)
        \<and> getitem d ''text'' = Inr t \<and> TextBlob t = Inr (pol, subj)
        \<and> doc = setitem (setitem (setitem d
               ''polarity'' (PFloat (round_ndigits pol 4)))
               ''subjectivity'' (PFloat (round_ndigits subj 4)))
               ''sentiment'' (PStr (sentiment_of (round_ndigits pol 4)))"
    using index_loop_documents [OF assms(1), of TextBlob es_index elems] assms(2) by (rule bspec)
  then show ?thesis
    by (elim bexE exE conjE) (intro exI conjI, assumption+)
qed

lemma sample_clean_loop:
  "for_loop (clean_step sample_clean) sample_dicts
     \<lparr>calls = [], heap = sample_heap, clean_text_elements_dict = []\<rparr> =
    (\<lparr>calls =
        [(CleanExtraWhitespace (PStr (''bad'' @ [CHR 0x0A])), None),
         (CleanExtraWhitespace (PStr ''Dec 13''), None),
         (CleanExtraWhitespace (PStr ''Dec 14''), None),
         (CleanExtraWhitespace (PStr ''Dec 15''), None),
         (CleanExtraWhitespace (PStr ''Dec 16''), None)],
      heap = (sample_heap
        (0 := [(''element_id'', PStr ''e0''), (''text'', PStr ''bad'')],
         1 := [(''element_id'', PStr ''e1''), (''text'', PStr ''Dec 13'')],
         2 := [(''element_id'', PStr ''e2''), (''text'', PStr ''Dec 14'')],
         3 := [(''element_id'', PStr ''e3''), (''text'', PStr ''Dec 15'')],
         4 := [(''element_id'', PStr ''e4''), (''text'', PStr ''Dec 16'')])),
      clean_text_elements_dict = [0, 1, 2, 3, 4]\<rparr>, None)"
  by (simp add: sample_dicts_def clean_step_def sample_clean_def sample_heap_def
      called_def raised_def getitem_def setitem_def Let_def)

lemma sample_clean_and_load_calls:
  "index_calls (calls
     (fst (clean_and_load sample_clean sample_TextBlob sample_es_index sample_dicts sample_heap)))
   = [[(''element_id'', PStr ''e0''), (''text'', PStr ''bad''),
       (''polarity'', PFloat (- 7 / 10)), (''subjectivity'', PFloat (6667 / 10000)),
       (''sentiment'', PStr ''negative'')],
      [(''element_id'', PStr ''e1''), (''text'', PStr ''Dec 13''),
       (''polarity'', PFloat 0), (''subjectivity'', PFloat 0),
       (''sentiment'', PStr ''neutral'')],
      [(''element_id'', PStr ''e2''), (''text'', PStr ''Dec 14''),
       (''polarity'', PFloat 0), (''subjectivity'', PFloat 0),
       (''sentiment'', PStr ''neutral'')],
      [(''element_id'', PStr ''e3''), (''text'', PStr ''Dec 15''),
       (''polarity'', PFloat 0), (''subjectivity'', PFloat 0),
       (''sentiment'', PStr ''neutral'')],
      [(''element_id'', PStr ''e4''), (''text'', PStr ''Dec 16''),
       (''polarity'', PFloat 0), (''subjectivity'', PFloat 0),
       (''sentiment'', PStr ''neutral'')]]"
  unfolding clean_and_load_run sample_clean_loop
  by (simp add: sample_dicts_def index_step_def sample_TextBlob_def sample_es_index_def
      called_def raised_def getitem_def setitem_def sentiment_of_def round_ndigits_def
      round_half_even_def Let_def)

lemma sample_clean_and_load_heap:
  "heap (fst (clean_and_load sample_clean sample_TextBlob sample_es_index sample_dicts
      sample_heap)) 0
   = [(''element_id'', PStr ''e0''), (''text'', PStr ''bad''),
       (''polarity'', PFloat (- 7 / 10)), (''subjectivity'', PFloat (6667 / 10000)),
       (''sentiment'', PStr ''negative'')]"
  unfolding clean_and_load_run sample_clean_loop
  by (simp add: sample_dicts_def index_step_def sample_TextBlob_def sample_es_index_def
      called_def raised_def getitem_def setitem_def sentiment_of_def round_ndigits_def
      round_half_even_def Let_def)

lemma sample_clean_and_load_returns:
  "snd (clean_and_load sample_clean sample_TextBlob sample_es_index sample_dicts sample_heap)
    = None"
  unfolding clean_and_load_run sample_clean_loop
  by (simp add: sample_dicts_def index_step_def sample_TextBlob_def sample_es_index_def
      called_def raised_def getitem_def setitem_def sentiment_of_def round_ndigits_def
      round_half_even_def Let_def)

subsection \<open>Call logs\<close>

lemma raises_last_returned: "raises_last cs None \<longleftrightarrow> (\<forall>c \<in> set cs. snd c = None)"
  by (induction cs "None :: error option" rule: raises_last.induct) auto

lemma raises_last_append:
  "raises_last xs None \<Longrightarrow> raises_last ys r \<Longrightarrow> raises_last (xs @ ys) r"
proof (induction xs "None :: error option" rule: raises_last.induct)
  case 1
  then show ?case by simp
next
  case (2 c x)
  then show ?case by (cases ys) auto
next
  case (3 c x v va)
  then show ?case by simp
qed

lemma raises_last_nth:
  "raises_last cs r \<Longrightarrow> i < length cs \<Longrightarrow> snd (cs ! i) = Some e \<Longrightarrow>
     Suc i = length cs \<and> r = Some e"
proof (induction cs r arbitrary: i rule: raises_last.induct)
  case (1 r)
  then show ?case by simp
next
  case (2 c x r)
  then show ?case by auto
next
  case (3 c x v va r)
  then show ?case by (cases i) auto
qed

lemma for_loop_logs:
  assumes "\<And>x s. \<exists>new. calls (fst (body x s)) = calls s @ new
      \<and> raises_last new (snd (body x s)) \<and> (\<forall>c \<in> set new. Q (fst c))"
  shows "\<exists>new. calls (fst (for_loop body xs s)) = calls s @ new
      \<and> raises_last new (snd (for_loop body xs s)) \<and> (\<forall>c \<in> set new. Q (fst c))"
proof (induction xs arbitrary: s)
  case Nil
  show ?case by simp
next
  case (Cons x xs)
  obtain s1 r1 where b: "body x s = (s1, r1)" by (cases "body x s")
  from assms [of x s] b obtain n1 where n1: "calls s1 = calls s @ n1" "raises_last n1 r1"
    "\<forall>c \<in> set n1. Q (fst c)" by auto
  show ?case
  proof (cases r1)
    case None
    from Cons.IH [of s1] obtain n2 where n2: "calls (fst (for_loop body xs s1)) = calls s1 @ n2"
      "raises_last n2 (snd (for_loop body xs s1))" "\<forall>c \<in> set n2. Q (fst c)" by blast
    have "calls (fst (for_loop body (x # xs) s)) = calls s @ (n1 @ n2)"
      "raises_last (n1 @ n2) (snd (for_loop body (x # xs) s))"
      "\<forall>c \<in> set (n1 @ n2). Q (fst c)"
      using b None n1 n2 by (auto intro: raises_last_append)
    then show ?thesis by blast
  next
    case (Some e)
    with b n1 show ?thesis by auto
  qed
qed

lemma then_run_logs:
  assumes "\<And>s. \<exists>new. calls (fst (f s)) = calls s @ new
      \<and> raises_last new (snd (f s)) \<and> (\<forall>c \<in> set new. Q (fst c))"
    and "\<And>s. \<exists>new. calls (fst (g s)) = calls s @ new
      \<and> raises_last new (snd (g s)) \<and> (\<forall>c \<in> set new. Q (fst c))"
  shows "\<exists>new. calls (fst (then_run f g s)) = calls s @ new
      \<and> raises_last new (snd (then_run f g s)) \<and> (\<forall>c \<in> set new. Q (fst c))"
proof -
  obtain s1 r1 where b: "f s = (s1, r1)" by (cases "f s")
  from assms(1) [of s] b obtain n1 where n1: "calls s1 = calls s @ n1" "raises_last n1 r1"
    "\<forall>c \<in> set n1. Q (fst c)" by auto
  show ?thesis
  proof (cases r1)
    case None
    from assms(2) [of s1] obtain n2 where n2: "calls (fst (g s1)) = calls s1 @ n2"
      "raises_last n2 (snd (g s1))" "\<forall>c \<in> set n2. Q (fst c)" by blast
    have "calls (fst (then_run f g s)) = calls s @ (n1 @ n2)"
      "raises_last (n1 @ n2) (snd (then_run f g s))"
      "\<forall>c \<in> set (n1 @ n2). Q (fst c)"
      using b None n1 n2 by (auto simp: then_run_def intro: raises_last_append)
    then show ?thesis by blast
  next
    case (Some e)
    with b n1 show ?thesis by (auto simp: then_run_def)
  qed
qed

lemma logs_weaken:
  assumes "\<exists>new. calls s' = calls s @ new \<and> raises_last new r \<and> (\<forall>c \<in> set new. Q (fst c))"
    and "\<And>c. Q c \<Longrightarrow> Q' c"
  shows "\<exists>new. calls s' = calls s @ new \<and> raises_last new r \<and> (\<forall>c \<in> set new. Q' (fst c))"
  using assms by blast

lemma clean_step_logs:
  "\<exists>new. calls (fst (clean_step cew a s)) = calls s @ new
      \<and> raises_last new (snd (clean_step cew a s)) \<and> (\<forall>c \<in> set new. True)"
  by (auto simp: clean_step_def Let_def called_def raised_def split: sum.splits)

lemma index_step_logs:
  "\<exists>new. calls (fst (index_step TextBlob es_index a s)) = calls s @ new
      \<and> raises_last new (snd (index_step TextBlob es_index a s)) \<and> (\<forall>c \<in> set new. True)"
proof (cases "getitem (heap s a) ''text''")
  case (Inl e)
  then show ?thesis by (simp add: index_step_def)
next
  case (Inr t)
  show ?thesis
  proof (cases "TextBlob t")
    case (Inl e)
    with Inr show ?thesis by (simp add: index_step_def Let_def called_def raised_def)
  next
    case r: (Inr p)
    obtain pol subj where p: "p = (pol, subj)" by (cases p)
    let ?d = "setitem (setitem (setitem (heap s a)
               ''polarity'' (PFloat (round_ndigits pol 4)))
               ''subjectivity'' (PFloat (round_ndigits subj 4)))
               ''sentiment'' (PStr (sentiment_of (round_ndigits pol 4)))"
    have "calls (fst (index_step TextBlob es_index a s))
        = calls s @ [(TextBlobSentiment t, None), (EsIndex ?d, es_index ?d)]"
      "snd (index_step TextBlob es_index a s) = es_index ?d"
      using Inr r p by (simp_all add: index_step_def Let_def called_def raised_def)
    moreover have "raises_last [(TextBlobSentiment t, None), (EsIndex ?d, es_index ?d)] (es_index ?d)"
      by simp
    ultimately show ?thesis by auto
  qed
qed

lemma partition_step_logs:
  "\<exists>new. calls (fst (partition_step partition_auto d s)) = calls s @ new
      \<and> raises_last new (snd (partition_step partition_auto d s)) \<and> (\<forall>c \<in> set new. True)"
  by (auto simp: partition_step_def Let_def called_def raised_def split: sum.splits)

lemma to_sql_step_logs:
  "\<exists>new. calls (fst (to_sql_step convert_to_dataframe to_sql s)) = calls s @ new
      \<and> raises_last new (snd (to_sql_step convert_to_dataframe to_sql s))
      \<and> (\<forall>c \<in> set new. True)"
proof (cases "convert_to_dataframe (elements s)")
  case (Inl e)
  then show ?thesis by (simp add: to_sql_step_def Let_def called_def raised_def)
next
  case (Inr df)
  have "calls (fst (to_sql_step convert_to_dataframe to_sql s))
        = calls s @ [(ConvertToDataframe (elements s), None), (ToSql df, to_sql df)]"
      "snd (to_sql_step convert_to_dataframe to_sql s) = to_sql df"
    using Inr by (simp_all add: to_sql_step_def Let_def called_def raised_def)
  moreover have "raises_last [(ConvertToDataframe (elements s), None), (ToSql df, to_sql df)]
      (to_sql df)"
    by simp
  ultimately show ?thesis by auto
qed

lemma read_step_logs:
  "\<exists>new. calls (fst (read_step read_sql_query q s)) = calls s @ new
      \<and> raises_last new (snd (read_step read_sql_query q s)) \<and> (\<forall>c \<in> set new. True)"
  by (simp add: read_step_def called_def)

lemma print_fifth_logs:
  "\<exists>new. calls (fst (print_fifth dicts s)) = calls s @ new
      \<and> raises_last new (snd (print_fifth dicts s)) \<and> (\<forall>c \<in> set new. True)"
  by (simp add: print_fifth_def)

lemma print_fifth_cleaned_logs:
  "\<exists>new. calls (fst (print_fifth (clean_text_elements_dict s) s)) = calls s @ new
      \<and> raises_last new (snd (print_fifth (clean_text_elements_dict s) s))
      \<and> (\<forall>c \<in> set new. True)"
  by (rule print_fifth_logs)

lemma index_loop_logs:
  "\<exists>new. calls (fst (for_loop (index_step TextBlob es_index) (clean_text_elements_dict s) s))
        = calls s @ new
      \<and> raises_last new
          (snd (for_loop (index_step TextBlob es_index) (clean_text_elements_dict s) s))
      \<and> (\<forall>c \<in> set new. True)"
  by (rule for_loop_logs) (rule index_step_logs)

lemma display_first_logs:
  "\<exists>new. calls (fst (display_first s)) = calls s @ new
      \<and> raises_last new (snd (display_first s)) \<and> (\<forall>c \<in> set new. True)"
  by (simp add: display_first_def split: list.splits)

lemma clean_and_load_logs:
  "raises_last (calls (fst (clean_and_load cew TextBlob es_index tds h)))
     (snd (clean_and_load cew TextBlob es_index tds h))"
proof -
  let ?s0 = "\<lparr>calls = [], heap = h, clean_text_elements_dict = []\<rparr>"
  let ?run = "then_run (print_fifth tds)
    (then_run (for_loop (clean_step cew) tds)
    (then_run (\<lambda>s. print_fifth (clean_text_elements_dict s) s)
              (\<lambda>s. for_loop (index_step TextBlob es_index) (clean_text_elements_dict s) s)))"
  have "\<exists>new. calls (fst (?run ?s0)) = calls ?s0 @ new
      \<and> raises_last new (snd (?run ?s0)) \<and> (\<forall>c \<in> set new. True)"
    by (intro then_run_logs for_loop_logs print_fifth_logs print_fifth_cleaned_logs
        clean_step_logs index_loop_logs)
  then show ?thesis
    by (auto simp: clean_and_load_def)
qed

lemma load_into_mysql_logs:
  "raises_last (calls (fst (load_into_mysql partition_auto convert_to_dataframe to_sql
        read_sql_query q docs)))
     (snd (load_into_mysql partition_auto convert_to_dataframe to_sql read_sql_query q docs))"
proof -
  let ?s0 = "\<lparr>calls = [], elements = []\<rparr>"
  let ?run = "then_run (for_loop (partition_step partition_auto) docs)
    (then_run display_first
    (then_run (to_sql_step convert_to_dataframe to_sql) (read_step read_sql_query q)))"
  have "\<exists>new. calls (fst (?run ?s0)) = calls ?s0 @ new
      \<and> raises_last new (snd (?run ?s0)) \<and> (\<forall>c \<in> set new. True)"
    by (intro then_run_logs for_loop_logs partition_step_logs display_first_logs
        to_sql_step_logs read_step_logs)
  then show ?thesis
    by (auto simp: load_into_mysql_def)
qed

lemma opaque_call_logs:
  assumes "Q c"
  shows "\<exists>new. calls (fst (opaque_call env c s)) = calls s @ new
      \<and> raises_last new (snd (opaque_call env c s)) \<and> (\<forall>c \<in> set new. Q (fst c))"
  using assms by (simp add: opaque_call_def called_def)

lemma fetch_step_logs:
  "\<exists>new. calls (fst (fetch_step env t s)) = calls s @ new
      \<and> raises_last new (snd (fetch_step env t s)) \<and> (\<forall>c \<in> set new. stage_of (fst c) = 1)"
  by (auto simp: fetch_step_def Let_def called_def raised_def split: sum.splits option.splits)

lemma version_step_logs:
  "\<exists>new. calls (fst (version_step env s)) = calls s @ new
      \<and> raises_last new (snd (version_step env s)) \<and> (\<forall>c \<in> set new. stage_of (fst c) = 2)"
  by (auto simp: version_step_def Let_def called_def raised_def split: sum.splits)

lemma extract_step_logs:
  "\<exists>new. calls (fst (extract_step env t s)) = calls s @ new
      \<and> raises_last new (snd (extract_step env t s)) \<and> (\<forall>c \<in> set new. stage_of (fst c) = 2)"
  by (auto simp: extract_step_def Let_def called_def raised_def
      split: sum.splits option.splits)

lemma isd_step_logs:
  "\<exists>new. calls (fst (isd_step env v s)) = calls s @ new
      \<and> raises_last new (snd (isd_step env v s)) \<and> (\<forall>c \<in> set new. stage_of (fst c) = 3)"
  by (auto simp: isd_step_def Let_def called_def raised_def split: sum.splits)

lemma annotate_step_logs:
  "\<exists>new. calls (fst (annotate_step env e s)) = calls s @ new
      \<and> raises_last new (snd (annotate_step env e s)) \<and> (\<forall>c \<in> set new. stage_of (fst c) = 3)"
  by (auto simp: annotate_step_def Let_def called_def raised_def
      split: sum.splits list.splits prod.splits)

lemma label_studio_step_logs:
  "\<exists>new. calls (fst (label_studio_step env s)) = calls s @ new
      \<and> raises_last new (snd (label_studio_step env s)) \<and> (\<forall>c \<in> set new. stage_of (fst c) = 3)"
  by (auto simp: label_studio_step_def Let_def called_def raised_def split: sum.splits)

lemma json_load_step_logs:
  "\<exists>new. calls (fst (json_load_step env s)) = calls s @ new
      \<and> raises_last new (snd (json_load_step env s)) \<and> (\<forall>c \<in> set new. stage_of (fst c) = 4)"
  by (auto simp: json_load_step_def Let_def called_def raised_def split: sum.splits)

lemma from_dict_step_logs:
  "\<exists>new. calls (fst (from_dict_step env s)) = calls s @ new
      \<and> raises_last new (snd (from_dict_step env s)) \<and> (\<forall>c \<in> set new. stage_of (fst c) = 4)"
  by (auto simp: from_dict_step_def opaque_call_def called_def split: sum.splits prod.splits)

lemma first_element_step_logs:
  "\<exists>new. calls (fst (first_element_step env s)) = calls s @ new
      \<and> raises_last new (snd (first_element_step env s)) \<and> (\<forall>c \<in> set new. stage_of (fst c) = 5)"
  by (auto simp: first_element_step_def opaque_call_def called_def split: list.splits)

lemma chunk_step_logs:
  "\<exists>new. calls (fst (chunk_step env s)) = calls s @ new
      \<and> raises_last new (snd (chunk_step env s)) \<and> (\<forall>c \<in> set new. stage_of (fst c) = 5)"
  by (auto simp: chunk_step_def Let_def called_def raised_def split: sum.splits)

lemma get_filings_logs:
  "\<exists>new. calls (fst (get_filings env tickers s)) = calls s @ new
      \<and> raises_last new (snd (get_filings env tickers s))
      \<and> (\<forall>c \<in> set new. stage_of (fst c) = 1)"
  unfolding get_filings_def
  by (intro then_run_logs for_loop_logs fetch_step_logs)
    (simp add: make_directory_def)

lemma extract_narrative_logs:
  "\<exists>new. calls (fst (extract_narrative env tickers s)) = calls s @ new
      \<and> raises_last new (snd (extract_narrative env tickers s))
      \<and> (\<forall>c \<in> set new. stage_of (fst c) = 2)"
  unfolding extract_narrative_def
  by (intro then_run_logs for_loop_logs version_step_logs extract_step_logs)

lemma isd_loop_logs:
  "\<exists>new. calls (fst (for_loop (isd_step env) (map snd (risk_factors s)) (s\<lparr>elements := []\<rparr>)))
        = calls s @ new
      \<and> raises_last new
          (snd (for_loop (isd_step env) (map snd (risk_factors s)) (s\<lparr>elements := []\<rparr>)))
      \<and> (\<forall>c \<in> set new. stage_of (fst c) = 3)"
  using for_loop_logs [of "isd_step env" "\<lambda>c. stage_of c = 3" "map snd (risk_factors s)"
      "s\<lparr>elements := []\<rparr>"] isd_step_logs
  by simp

lemma annotate_loop_logs:
  "\<exists>new. calls (fst (for_loop (annotate_step env) (elements s) (s\<lparr>annotations := []\<rparr>)))
        = calls s @ new
      \<and> raises_last new
          (snd (for_loop (annotate_step env) (elements s) (s\<lparr>annotations := []\<rparr>)))
      \<and> (\<forall>c \<in> set new. stage_of (fst c) = 3)"
  using for_loop_logs [of "annotate_step env" "\<lambda>c. stage_of c = 3" "elements s"
      "s\<lparr>annotations := []\<rparr>"] annotate_step_logs
  by simp

lemma stage_label_studio_logs:
  "\<exists>new. calls (fst (stage_label_studio env s)) = calls s @ new
      \<and> raises_last new (snd (stage_label_studio env s))
      \<and> (\<forall>c \<in> set new. stage_of (fst c) = 3)"
  unfolding stage_label_studio_def
  by (intro then_run_logs isd_loop_logs annotate_loop_logs label_studio_step_logs
      opaque_call_logs) simp_all

lemma train_logs:
  "\<exists>new. calls (fst (train env s)) = calls s @ new
      \<and> raises_last new (snd (train env s))
      \<and> (\<forall>c \<in> set new. stage_of (fst c) = 4)"
  unfolding train_def
  by (intro then_run_logs json_load_step_logs from_dict_step_logs opaque_call_logs) simp_all

lemma last_call_logs:
  "\<exists>new. calls (fst (opaque_call env (SecSentimentModel (chunked_text s)) s)) = calls s @ new
      \<and> raises_last new (snd (opaque_call env (SecSentimentModel (chunked_text s)) s))
      \<and> (\<forall>c \<in> set new. stage_of (fst c) = 5)"
  by (rule opaque_call_logs) simp

lemma chunk_logs:
  "\<exists>new. calls (fst (chunk env s)) = calls s @ new
      \<and> raises_last new (snd (chunk env s))
      \<and> (\<forall>c \<in> set new. stage_of (fst c) = 5)"
  unfolding chunk_def
  by (intro then_run_logs first_element_step_logs chunk_step_logs last_call_logs
      opaque_call_logs) simp_all

lemma from_train_logs:
  "\<exists>new. calls (fst (then_run (train env) (chunk env) s)) = calls s @ new
      \<and> raises_last new (snd (then_run (train env) (chunk env) s))
      \<and> (\<forall>c \<in> set new. 4 \<le> stage_of (fst c))"
  by (rule then_run_logs; rule logs_weaken [OF train_logs] logs_weaken [OF chunk_logs]) simp_all

lemma from_label_studio_logs:
  "\<exists>new. calls (fst (then_run (stage_label_studio env)
        (then_run (train env) (chunk env)) s)) = calls s @ new
      \<and> raises_last new (snd (then_run (stage_label_studio env)
        (then_run (train env) (chunk env)) s))
      \<and> (\<forall>c \<in> set new. 3 \<le> stage_of (fst c))"
  by (rule then_run_logs;
      rule logs_weaken [OF stage_label_studio_logs] logs_weaken [OF from_train_logs]) simp_all

lemma from_extract_logs:
  "\<exists>new. calls (fst (then_run (extract_narrative env tickers) (then_run (stage_label_studio env)
        (then_run (train env) (chunk env))) s)) = calls s @ new
      \<and> raises_last new (snd (then_run (extract_narrative env tickers)
        (then_run (stage_label_studio env) (then_run (train env) (chunk env))) s))
      \<and> (\<forall>c \<in> set new. 2 \<le> stage_of (fst c))"
  by (rule then_run_logs;
      rule logs_weaken [OF extract_narrative_logs] logs_weaken [OF from_label_studio_logs])
    simp_all

lemma sec_sentiment_analysis_logs:
  "\<exists>new. calls (fst (sec_sentiment_analysis env tickers s)) = calls s @ new
      \<and> raises_last new (snd (sec_sentiment_analysis env tickers s))
      \<and> (\<forall>c \<in> set new. 1 \<le> stage_of (fst c))"
  unfolding sec_sentiment_analysis_def
  by (rule then_run_logs;
      rule logs_weaken [OF get_filings_logs] logs_weaken [OF from_extract_logs])
    simp_all

subsection \<open>SEC notebook: what each part logs\<close>

lemma fetched_append: "fetched (xs @ ys) = fetched xs @ fetched ys"
  by (induction xs rule: fetched.induct) simp_all

lemma posted_append: "posted (xs @ ys) = posted xs @ posted ys"
  by (induction xs rule: posted.induct) simp_all

lemma annotated_append: "annotated (xs @ ys) = annotated xs @ annotated ys"
  by (induction xs rule: annotated.induct) simp_all

lemma fetched_other: "\<forall>c \<in> set cs. stage_of (fst c) \<noteq> 1 \<Longrightarrow> fetched cs = []"
  by (induction cs rule: fetched.induct) simp_all

lemma posted_other: "\<forall>c \<in> set cs. stage_of (fst c) \<noteq> 2 \<Longrightarrow> posted cs = []"
  by (induction cs rule: posted.induct) simp_all

lemma annotated_other: "\<forall>c \<in> set cs. stage_of (fst c) \<noteq> 3 \<Longrightarrow> annotated cs = []"
  by (induction cs rule: annotated.induct) simp_all

lemma sorted_same_stage:
  "\<forall>c \<in> set cs. stage_of (fst c) = k \<Longrightarrow> sorted (map (\<lambda>c. stage_of (fst c)) cs)"
  by (induction cs) auto

lemma sorted_stage_append:
  assumes "\<forall>c \<in> set xs. stage_of (fst c) = k" and "\<forall>c \<in> set ys. Suc k \<le> stage_of (fst c)"
    and "sorted (map (\<lambda>c. stage_of (fst c)) ys)"
  shows "sorted (map (\<lambda>c. stage_of (fst c)) (xs @ ys))"
  using assms sorted_same_stage [of xs k] by (fastforce simp: sorted_append)

lemma split_path_nonempty: "split_path path \<noteq> []"
  by (induction path) (auto split: list.splits)

lemma split_path_append:
  "split_path (a @ CHR ''/'' # b) = split_path a @ split_path b"
proof (induction a)
  case Nil
  show ?case by simp
next
  case (Cons c cs)
  obtain x xs where "split_path cs = x # xs"
    using split_path_nonempty [of cs] by (cases "split_path cs") auto
  with Cons show ?case by simp
qed

lemma split_path_plain: "CHR ''/'' \<notin> set name \<Longrightarrow> split_path name = [name]"
  by (induction name) auto

lemma walk_append: "walk directory (xs @ ys) = walk (walk directory xs) ys"
  by (induction xs arbitrary: directory) auto

lemma form_name:
  "ticker @ ''-10k.xbrl'' \<noteq> [] \<and> ticker @ ''-10k.xbrl'' \<noteq> ''.''
    \<and> ticker @ ''-10k.xbrl'' \<noteq> ''..''
    \<and> (CHR ''/'' \<notin> set ticker \<longrightarrow> CHR ''/'' \<notin> set (ticker @ ''-10k.xbrl''))"
proof -
  have l: "last (ticker @ ''-10k.xbrl'') = CHR ''l''" by simp
  have "ticker @ ''-10k.xbrl'' \<noteq> ''.''"
  proof
    assume "ticker @ ''-10k.xbrl'' = ''.''"
    then have "last (ticker @ ''-10k.xbrl'') = last ''.''" by (rule arg_cong)
    with l show False by simp
  qed
  moreover have "ticker @ ''-10k.xbrl'' \<noteq> ''..''"
  proof
    assume "ticker @ ''-10k.xbrl'' = ''..''"
    then have "last (ticker @ ''-10k.xbrl'') = last ''..''" by (rule arg_cong)
    with l show False by simp
  qed
  ultimately show ?thesis by simp
qed

lemma text_file_location:
  assumes "CHR ''/'' \<notin> set ticker"
  shows "resolve cwd (text_file ticker)
    = walk [] (split_path cwd) @ [''xbrl-forms'', ticker @ ''-10k.xbrl'']"
proof -
  let ?name = "ticker @ ''-10k.xbrl''"
  have "text_file ticker = ''.'' @ CHR ''/'' # (''xbrl-forms'' @ CHR ''/'' # ?name)"
    by (simp add: text_file_def)
  then have "split_path (text_file ticker) = [''.'', ''xbrl-forms'', ?name]"
    using form_name [of ticker] assms
    by (simp only: split_path_append) (simp add: split_path_plain)
  moreover have "text_file ticker \<noteq> [] \<and> hd (text_file ticker) \<noteq> CHR ''/''"
    by (simp add: text_file_def)
  ultimately show ?thesis
    using form_name [of ticker] by (simp add: resolve_def walk_append)
qed

lemma form_filename_location:
  assumes "cwd \<noteq> []" and "hd cwd = CHR ''/''" and "CHR ''/'' \<notin> set ticker"
  shows "path_join (path_join cwd ''xbrl-forms'') (ticker @ ''-10k.xbrl'') \<noteq> []
    \<and> hd (path_join (path_join cwd ''xbrl-forms'') (ticker @ ''-10k.xbrl'')) = CHR ''/''
    \<and> walk [] (split_path (path_join (path_join cwd ''xbrl-forms'') (ticker @ ''-10k.xbrl'')))
        = walk [] (split_path cwd) @ [''xbrl-forms'', ticker @ ''-10k.xbrl'']"
proof -
  let ?name = "ticker @ ''-10k.xbrl''"
  have n: "?name \<noteq> []" "hd ?name \<noteq> CHR ''/''" "split_path ?name = [?name]"
    "?name \<noteq> ''.''" "?name \<noteq> ''..''"
    using form_name [of ticker] assms(3)
    by (cases ticker; auto simp: split_path_plain)+
  show ?thesis
  proof (cases "last cwd = CHR ''/''")
    case True
    with assms(1) obtain c where c: "cwd = c @ ''/''"
      by (metis append_butlast_last_id)
    have j: "path_join (path_join cwd ''xbrl-forms'') ?name
        = c @ CHR ''/'' # (''xbrl-forms'' @ CHR ''/'' # ?name)"
      using n(1,2) by (simp add: path_join_def c)
    have "split_path cwd = split_path c @ [[]]"
      unfolding c using split_path_append [of c "[]"] by simp
    then have w: "walk [] (split_path cwd) = walk [] (split_path c)"
      by (simp add: walk_append)
    have "split_path (path_join (path_join cwd ''xbrl-forms'') ?name)
        = split_path c @ [''xbrl-forms'', ?name]"
      unfolding j by (simp only: split_path_append n(3)) (simp add: split_path_plain)
    then have "walk [] (split_path (path_join (path_join cwd ''xbrl-forms'') ?name))
        = walk [] (split_path cwd) @ [''xbrl-forms'', ?name]"
      using n(1,4,5) by (simp add: walk_append w)
    moreover have "path_join (path_join cwd ''xbrl-forms'') ?name \<noteq> []
      \<and> hd (path_join (path_join cwd ''xbrl-forms'') ?name) = CHR ''/''"
      unfolding j using assms(1,2) c by (cases c) auto
    ultimately show ?thesis by simp
  next
    case False
    have j: "path_join (path_join cwd ''xbrl-forms'') ?name
        = cwd @ CHR ''/'' # (''xbrl-forms'' @ CHR ''/'' # ?name)"
      using n(1,2) assms(1) False by (simp add: path_join_def)
    have "split_path (path_join (path_join cwd ''xbrl-forms'') ?name)
        = split_path cwd @ [''xbrl-forms'', ?name]"
      unfolding j by (simp only: split_path_append n(3)) (simp add: split_path_plain)
    then have "walk [] (split_path (path_join (path_join cwd ''xbrl-forms'') ?name))
        = walk [] (split_path cwd) @ [''xbrl-forms'', ?name]"
      using n(1,4,5) by (simp add: walk_append)
    moreover have "path_join (path_join cwd ''xbrl-forms'') ?name \<noteq> []
      \<and> hd (path_join (path_join cwd ''xbrl-forms'') ?name) = CHR ''/''"
      unfolding j using assms(1,2) by (cases cwd) auto
    ultimately show ?thesis by simp
  qed
qed

lemma notebook_tickers_plain:
  "distinct notebook_tickers \<and> (\<forall>t \<in> set notebook_tickers. CHR ''/'' \<notin> set t)"
  by (simp add: notebook_tickers_def)

lemma same_location:
  assumes "getcwd env \<noteq> []" and "hd (getcwd env) = CHR ''/''" and "CHR ''/'' \<notin> set ticker"
  shows "resolve (getcwd env) (form_filename env ticker)
    = resolve (getcwd env) (text_file ticker)"
  using form_filename_location [OF assms] text_file_location [OF assms(3), of "getcwd env"]
  by (simp add: resolve_def form_filename_def data_directory_def)

lemma text_file_location_inject:
  assumes "CHR ''/'' \<notin> set a" and "CHR ''/'' \<notin> set b"
  shows "resolve cwd (text_file a) = resolve cwd (text_file b) \<longleftrightarrow> a = b"
  by (simp add: text_file_location assms)


lemma for_loop_keeps:
  assumes "\<And>x s. F (fst (body x s)) = F s"
  shows "F (fst (for_loop body xs s)) = F s"
proof (induction xs arbitrary: s)
  case Nil
  show ?case by simp
next
  case (Cons x xs)
  obtain s1 r where b: "body x s = (s1, r)" by (cases "body x s")
  then have "F s1 = F s" using assms [of x s] by simp
  with b Cons [of s1] show ?case
    by (cases r) simp_all
qed

lemma then_run_keeps:
  assumes "\<And>s. F (fst (f s)) = F s" and "\<And>s. F (fst (g s)) = F s"
  shows "F (fst (then_run f g s)) = F s"
proof -
  obtain s1 r where b: "f s = (s1, r)" by (cases "f s")
  then have "F s1 = F s" using assms(1) [of s] by simp
  with b assms(2) [of s1] show ?thesis
    by (cases r) (simp_all add: then_run_def)
qed

lemma then_run_returned: "f s = (s1, None) \<Longrightarrow> then_run f g s = g s1"
  by (simp add: then_run_def)

lemma then_run_raised: "f s = (s1, Some e) \<Longrightarrow> then_run f g s = (s1, Some e)"
  by (simp add: then_run_def)

lemma fetch_step_returned:
  assumes "fetch_step env t s = (s', None)"
  shows "\<exists>x. get_form_by_ticker env t = Inr x
    \<and> files s' = AList.update (resolve (getcwd env) (form_filename env t)) x (files s)
    \<and> fetched (calls s') = fetched (calls s) @ [t]"
  using assms
  by (auto simp: fetch_step_def Let_def called_def raised_def fetched_append
      split: sum.splits option.splits)

lemma get_filings_returned:
  "get_filings env tickers s = (s', None) \<Longrightarrow> for_loop (fetch_step env) tickers s = (s', None)"
  by (auto simp: get_filings_def then_run_def make_directory_def split: if_splits option.splits)

lemma fetch_loop_fetched:
  "for_loop (fetch_step env) tickers s = (s', None) \<Longrightarrow>
     fetched (calls s') = fetched (calls s) @ tickers"
proof (induction tickers arbitrary: s)
  case Nil
  then show ?case by simp
next
  case (Cons t ts)
  obtain s1 r where b: "fetch_step env t s = (s1, r)" by (cases "fetch_step env t s")
  with Cons.prems have r: "r = None" and l: "for_loop (fetch_step env) ts s1 = (s', None)"
    by (auto split: option.splits)
  from fetch_step_returned b r have "fetched (calls s1) = fetched (calls s) @ [t]"
    by blast
  with Cons.IH [OF l] show ?case by simp
qed

lemma fetch_step_frame:
  assumes "getcwd env \<noteq> []" and "hd (getcwd env) = CHR ''/''"
    and "CHR ''/'' \<notin> set t" and "CHR ''/'' \<notin> set u" and "t \<noteq> u"
  shows "map_of (files (fst (fetch_step env u s))) (resolve (getcwd env) (text_file t))
    = map_of (files s) (resolve (getcwd env) (text_file t))"
proof -
  have "resolve (getcwd env) (form_filename env u) \<noteq> resolve (getcwd env) (text_file t)"
    using same_location [OF assms(1,2,4)]
      text_file_location_inject [OF assms(3,4), of "getcwd env"] assms(5)
    by auto
  then show ?thesis
    by (auto simp: fetch_step_def Let_def called_def update_conv'
        split: sum.splits option.splits)
qed

lemma fetch_loop_frame:
  assumes "getcwd env \<noteq> []" and "hd (getcwd env) = CHR ''/''"
    and "\<forall>u \<in> set tickers. CHR ''/'' \<notin> set u" and "CHR ''/'' \<notin> set t"
    and "t \<notin> set tickers"
  shows "map_of (files (fst (for_loop (fetch_step env) tickers s)))
        (resolve (getcwd env) (text_file t))
    = map_of (files s) (resolve (getcwd env) (text_file t))"
proof (rule for_loop_invariant
    [where I = "\<lambda>s'. map_of (files s') (resolve (getcwd env) (text_file t))
      = map_of (files s) (resolve (getcwd env) (text_file t))"])
  fix x and s1 s2 :: sec_notebook and r
  assume x: "x \<in> set tickers"
    and i: "map_of (files s1) (resolve (getcwd env) (text_file t))
      = map_of (files s) (resolve (getcwd env) (text_file t))"
    and b: "fetch_step env x s1 = (s2, r)"
  from x assms(3,5) have "CHR ''/'' \<notin> set x" "t \<noteq> x" by auto
  from fetch_step_frame [OF assms(1,2,4) this, of s1] b i
  show "map_of (files s2) (resolve (getcwd env) (text_file t))
      = map_of (files s) (resolve (getcwd env) (text_file t))"
    by simp
qed simp

lemma fetch_loop_files:
  assumes "for_loop (fetch_step env) tickers s = (s', None)"
    and "getcwd env \<noteq> []" and "hd (getcwd env) = CHR ''/''"
    and "\<forall>u \<in> set tickers. CHR ''/'' \<notin> set u" and "t \<in> set tickers"
  shows "\<exists>x. get_form_by_ticker env t = Inr x
    \<and> map_of (files s') (resolve (getcwd env) (text_file t)) = Some x"
  using assms(1,4,5)
proof (induction tickers arbitrary: s)
  case Nil
  then show ?case by simp
next
  case (Cons u ts)
  obtain s1 r where b: "fetch_step env u s = (s1, r)" by (cases "fetch_step env u s")
  with Cons.prems(1) have r: "r = None" and l: "for_loop (fetch_step env) ts s1 = (s', None)"
    by (auto split: option.splits)
  from Cons.prems(2) have p: "\<forall>u \<in> set ts. CHR ''/'' \<notin> set u" "CHR ''/'' \<notin> set u" by simp_all
  show ?case
  proof (cases "t \<in> set ts")
    case True
    then show ?thesis using Cons.IH [OF l p(1)] by simp
  next
    case False
    with Cons.prems(3) have t: "t = u" by simp
    from fetch_step_returned b r obtain x where x: "get_form_by_ticker env u = Inr x"
      "files s1 = AList.update (resolve (getcwd env) (form_filename env u)) x (files s)"
      by blast
    have "map_of (files s1) (resolve (getcwd env) (text_file u)) = Some x"
      unfolding x(2) same_location [OF assms(2,3) p(2)] by (simp add: update_conv')
    moreover have "map_of (files s') (resolve (getcwd env) (text_file t))
        = map_of (files s1) (resolve (getcwd env) (text_file t))"
      using fetch_loop_frame [OF assms(2,3) p(1) _ False, of s1] p(2) t l by simp
    ultimately show ?thesis using x(1) t by simp
  qed
qed

lemma extract_step_kept:
  "files (fst (extract_step env t s)) = files s \<and> url (fst (extract_step env t s)) = url s"
  by (auto simp: extract_step_def Let_def called_def split: sum.splits option.splits)

lemma extract_step_returned:
  assumes "extract_step env t s = (s', None)"
  shows "\<exists>content response body sections.
        map_of (files s) (resolve (getcwd env) (text_file t)) = Some content
      \<and> requests_post env (url s) content = Inr response
      \<and> raise_for_status response = None \<and> json response = Inr body
      \<and> subscript body ''RISK_FACTORS'' = Inr sections
      \<and> posted (calls s') = posted (calls s) @ [content]
      \<and> risk_factors s' = setitem (risk_factors s) t sections"
  using assms
  by (auto simp: extract_step_def Let_def called_def raised_def posted_append
      split: sum.splits option.splits)

lemma extract_loop_kept:
  "files (fst (for_loop (extract_step env) tickers s)) = files s
    \<and> url (fst (for_loop (extract_step env) tickers s)) = url s"
  using for_loop_keeps [of "\<lambda>s. (files s, url s)" "extract_step env" tickers s]
    extract_step_kept [of env]
  by simp

lemma extract_loop_posted:
  "for_loop (extract_step env) tickers s = (s', None) \<Longrightarrow>
     map Some (posted (calls s')) =
       map Some (posted (calls s))
       @ map (\<lambda>t. map_of (files s) (resolve (getcwd env) (text_file t))) tickers"
proof (induction tickers arbitrary: s)
  case Nil
  then show ?case by simp
next
  case (Cons t ts)
  obtain s1 r where b: "extract_step env t s = (s1, r)" by (cases "extract_step env t s")
  with Cons.prems have r: "r = None" and l: "for_loop (extract_step env) ts s1 = (s', None)"
    by (auto split: option.splits)
  from extract_step_returned b r obtain content where f:
    "map_of (files s) (resolve (getcwd env) (text_file t)) = Some content"
    "posted (calls s1) = posted (calls s) @ [content]"
    by blast
  have "files s1 = files s" using extract_step_kept [of env t s] b by simp
  with f Cons.IH [OF l] show ?case by simp
qed

lemma extract_loop_others:
  "k \<notin> set tickers \<Longrightarrow>
     map_of (risk_factors (fst (for_loop (extract_step env) tickers s))) k
       = map_of (risk_factors s) k"
  by (rule for_loop_invariant
      [where I = "\<lambda>s'. map_of (risk_factors s') k = map_of (risk_factors s) k"])
    (auto simp: extract_step_def Let_def called_def setitem_def update_conv'
      split: sum.splits option.splits)

lemma extract_loop_sections:
  assumes "for_loop (extract_step env) tickers s = (s', None)" and "t \<in> set tickers"
  shows "\<exists>content response body sections.
        map_of (files s) (resolve (getcwd env) (text_file t)) = Some content
      \<and> requests_post env (url s) content = Inr response
      \<and> raise_for_status response = None \<and> json response = Inr body
      \<and> subscript body ''RISK_FACTORS'' = Inr sections
      \<and> map_of (risk_factors s') t = Some sections"
  using assms
proof (induction tickers arbitrary: s)
  case Nil
  then show ?case by simp
next
  case (Cons u ts)
  obtain s1 r where b: "extract_step env u s = (s1, r)" by (cases "extract_step env u s")
  with Cons.prems(1) have r: "r = None" and l: "for_loop (extract_step env) ts s1 = (s', None)"
    by (auto split: option.splits)
  have k: "files s1 = files s" "url s1 = url s"
    using extract_step_kept [of env u s] b by simp_all
  show ?case
  proof (cases "t \<in> set ts")
    case True
    from Cons.IH [OF l True] show ?thesis unfolding k .
  next
    case False
    with Cons.prems(2) have t: "t = u" by simp
    from extract_step_returned b r obtain content response body sections where c:
      "map_of (files s) (resolve (getcwd env) (text_file u)) = Some content
      \<and> requests_post env (url s) content = Inr response
      \<and> raise_for_status response = None \<and> json response = Inr body
      \<and> subscript body ''RISK_FACTORS'' = Inr sections"
      "risk_factors s1 = setitem (risk_factors s) u sections"
      by blast
    have "map_of (risk_factors s') t = map_of (risk_factors s1) t"
      using extract_loop_others [OF False, of env s1] l by simp
    then have "map_of (risk_factors s') t = Some sections"
      using c(2) t by (simp add: setitem_def update_conv')
    with c(1) t show ?thesis by blast
  qed
qed

lemma update_new_key: "k \<notin> fst ` set d \<Longrightarrow> AList.update k v d = d @ [(k, v)]"
  by (induction d) auto

lemma extract_loop_keys:
  assumes "for_loop (extract_step env) tickers s = (s', None)" and "distinct tickers"
    and "set tickers \<inter> fst ` set (risk_factors s) = {}"
  shows "map fst (risk_factors s') = map fst (risk_factors s) @ tickers"
  using assms
proof (induction tickers arbitrary: s)
  case Nil
  then show ?case by simp
next
  case (Cons u ts)
  obtain s1 r where b: "extract_step env u s = (s1, r)" by (cases "extract_step env u s")
  with Cons.prems(1) have r: "r = None" and l: "for_loop (extract_step env) ts s1 = (s', None)"
    by (auto split: option.splits)
  from extract_step_returned b r obtain sections where
    "risk_factors s1 = setitem (risk_factors s) u sections"
    by blast
  moreover from Cons.prems(3) have "u \<notin> fst ` set (risk_factors s)" by auto
  ultimately have 1: "risk_factors s1 = risk_factors s @ [(u, sections)]"
    by (simp add: setitem_def update_new_key)
  with Cons.prems(2,3) have "set ts \<inter> fst ` set (risk_factors s1) = {}" by auto
  from Cons.IH [OF l _ this] Cons.prems(2) 1 show ?case by simp
qed

lemma version_step_returned:
  assumes "version_step env s = (s', None)"
  shows "risk_factors s' = [] \<and> files s' = files s \<and> posted (calls s') = posted (calls s)"
  using assms
  by (auto simp: version_step_def Let_def called_def raised_def posted_append
      split: sum.splits)

lemma extract_narrative_files:
  "files (fst (extract_narrative env tickers s)) = files s"
  unfolding extract_narrative_def
  by (intro then_run_keeps for_loop_keeps)
    (auto simp: version_step_def extract_step_def Let_def called_def
      split: sum.splits option.splits)

lemma extract_narrative_returned:
  assumes "extract_narrative env tickers s = (s', None)"
  obtains s1 where "version_step env s = (s1, None)"
    and "for_loop (extract_step env) tickers s1 = (s', None)"
proof -
  obtain s1 r where v: "version_step env s = (s1, r)" by (cases "version_step env s")
  with assms have "r = None \<and> for_loop (extract_step env) tickers s1 = (s', None)"
    by (auto simp: extract_narrative_def then_run_def split: option.splits)
  with v that show ?thesis by simp
qed

lemma extract_narrative_posted:
  assumes "extract_narrative env tickers s = (s', None)"
  shows "map Some (posted (calls s')) =
       map Some (posted (calls s))
       @ map (\<lambda>t. map_of (files s') (resolve (getcwd env) (text_file t))) tickers"
proof -
  from assms obtain s1 where v: "version_step env s = (s1, None)"
    and l: "for_loop (extract_step env) tickers s1 = (s', None)"
    by (rule extract_narrative_returned)
  have "files s' = files s1"
    using extract_loop_kept [of env tickers s1] l by simp
  with extract_loop_posted [OF l] version_step_returned [OF v] show ?thesis by simp
qed

lemma extract_narrative_sections:
  assumes "extract_narrative env tickers s = (s', None)" and "t \<in> set tickers"
  shows "\<exists>content response body sections.
        map_of (files s') (resolve (getcwd env) (text_file t)) = Some content
      \<and> requests_post env (url s') content = Inr response
      \<and> raise_for_status response = None \<and> json response = Inr body
      \<and> subscript body ''RISK_FACTORS'' = Inr sections
      \<and> map_of (risk_factors s') t = Some sections"
proof -
  from assms(1) obtain s1 where v: "version_step env s = (s1, None)"
    and l: "for_loop (extract_step env) tickers s1 = (s', None)"
    by (rule extract_narrative_returned)
  have "files s' = files s1" "url s' = url s1"
    using extract_loop_kept [of env tickers s1] l by simp_all
  with extract_loop_sections [OF l assms(2)] show ?thesis by simp
qed

lemma extract_narrative_others:
  assumes "extract_narrative env tickers s = (s', None)" and "k \<notin> set tickers"
  shows "map_of (risk_factors s') k = None"
proof -
  from assms(1) obtain s1 where v: "version_step env s = (s1, None)"
    and l: "for_loop (extract_step env) tickers s1 = (s', None)"
    by (rule extract_narrative_returned)
  from extract_loop_others [OF assms(2), of env s1] l version_step_returned [OF v]
  show ?thesis by simp
qed

lemma extract_narrative_keys:
  assumes "extract_narrative env tickers s = (s', None)" and "distinct tickers"
  shows "map fst (risk_factors s') = tickers"
proof -
  from assms(1) obtain s1 where v: "version_step env s = (s1, None)"
    and l: "for_loop (extract_step env) tickers s1 = (s', None)"
    by (rule extract_narrative_returned)
  from extract_loop_keys [OF l assms(2)] version_step_returned [OF v]
  show ?thesis by simp
qed

lemma opaque_call_elements: "elements (fst (opaque_call env c s)) = elements s"
  by (simp add: opaque_call_def called_def)

lemma opaque_call_annotated:
  "\<forall>t. c \<noteq> SentimentPipeline t \<Longrightarrow>
     annotated (calls (fst (opaque_call env c s))) = annotated (calls s)"
  by (cases c) (simp_all add: opaque_call_def called_def annotated_append)

lemma stage_label_studio_kept:
  "files (fst (stage_label_studio env s)) = files s
    \<and> url (fst (stage_label_studio env s)) = url s
    \<and> risk_factors (fst (stage_label_studio env s)) = risk_factors s"
proof -
  let ?F = "\<lambda>s :: sec_notebook. (files s, url s, risk_factors s)"
  have 1: "?F (fst (for_loop (isd_step env) vs s)) = ?F s" for vs s
    by (rule for_loop_keeps) (auto simp: isd_step_def Let_def called_def split: sum.splits)
  have 2: "?F (fst (for_loop (annotate_step env) es s)) = ?F s" for es s
    by (rule for_loop_keeps)
      (auto simp: annotate_step_def Let_def called_def split: sum.splits list.splits prod.splits)
  have "?F (fst (stage_label_studio env s)) = ?F s"
    unfolding stage_label_studio_def
    by (intro then_run_keeps)
      (auto simp: 1 2 opaque_call_def label_studio_step_def Let_def called_def
        split: sum.splits)
  then show ?thesis by simp
qed

lemma train_kept:
  "files (fst (train env s)) = files s \<and> url (fst (train env s)) = url s
    \<and> risk_factors (fst (train env s)) = risk_factors s
    \<and> elements (fst (train env s)) = elements s
    \<and> annotations (fst (train env s)) = annotations s"
proof -
  let ?F = "\<lambda>s :: sec_notebook. (files s, url s, risk_factors s, elements s, annotations s)"
  have "?F (fst (train env s)) = ?F s"
    unfolding train_def
    by (intro then_run_keeps)
      (auto simp: json_load_step_def from_dict_step_def opaque_call_def Let_def called_def
        split: sum.splits prod.splits)
  then show ?thesis by simp
qed

lemma chunk_kept:
  "files (fst (chunk env s)) = files s \<and> url (fst (chunk env s)) = url s
    \<and> risk_factors (fst (chunk env s)) = risk_factors s
    \<and> elements (fst (chunk env s)) = elements s
    \<and> annotations (fst (chunk env s)) = annotations s"
proof -
  let ?F = "\<lambda>s :: sec_notebook. (files s, url s, risk_factors s, elements s, annotations s)"
  have "?F (fst (chunk env s)) = ?F s"
    unfolding chunk_def
    by (intro then_run_keeps)
      (auto simp: first_element_step_def chunk_step_def opaque_call_def Let_def called_def
        split: sum.splits list.splits)
  then show ?thesis by simp
qed

lemma isd_loop_annotated:
  "annotated (calls (fst (for_loop (isd_step env) vs s))) = annotated (calls s)"
  by (rule for_loop_invariant [where I = "\<lambda>s'. annotated (calls s') = annotated (calls s)"])
    (auto simp: isd_step_def Let_def called_def annotated_append split: sum.splits)

lemma isd_loop_success:
  "for_loop (isd_step env) vs s = (s', None) \<Longrightarrow>
     \<exists>parts. comprehension (isd_to_elements env) vs = Inr parts
       \<and> elements s' = elements s @ concat parts"
proof (induction vs arbitrary: s)
  case Nil
  then show ?case by simp
next
  case (Cons v vs)
  obtain s1 r where b: "isd_step env v s = (s1, r)" by (cases "isd_step env v s")
  with Cons.prems have r: "r = None" and l: "for_loop (isd_step env) vs s1 = (s', None)"
    by (auto split: option.splits)
  from b r obtain es where es: "isd_to_elements env v = Inr es" "elements s1 = elements s @ es"
    by (auto simp: isd_step_def Let_def called_def split: sum.splits)
  from Cons.IH [OF l] obtain parts where
    "comprehension (isd_to_elements env) vs = Inr parts" "elements s' = elements s1 @ concat parts"
    by blast
  with es show ?case by simp
qed

lemma annotate_step_returned:
  assumes "annotate_step env x s = (s', None)"
  shows "\<exists>label score rest.
      sentiment_pipeline env (element_text x) = Inr ((label, score) # rest)
    \<and> annotations s' = annotations s @ [annotation (title label)]
    \<and> annotated (calls s') = annotated (calls s) @ [element_text x]
    \<and> elements s' = elements s"
  using assms
  by (auto simp: annotate_step_def Let_def called_def raised_def annotated_append
      split: sum.splits list.splits prod.splits)

lemma annotate_loop_success:
  "for_loop (annotate_step env) es s = (s', None) \<Longrightarrow>
     annotated (calls s') = annotated (calls s) @ map element_text es
     \<and> elements s' = elements s
     \<and> (\<exists>anns. annotations s' = annotations s @ anns
          \<and> list_all2 (\<lambda>e a. \<exists>label score rest.
          sentiment_pipeline env (element_text e) = Inr ((label, score) # rest)
        \<and> a = annotation (title label)) es anns)"
proof (induction es arbitrary: s)
  case Nil
  then show ?case by simp
next
  case (Cons x xs)
  obtain s1 r where b: "annotate_step env x s = (s1, r)" by (cases "annotate_step env x s")
  with Cons.prems have r: "r = None" and l: "for_loop (annotate_step env) xs s1 = (s', None)"
    by (auto split: option.splits)
  from annotate_step_returned b r obtain label score rest where 1:
    "sentiment_pipeline env (element_text x) = Inr ((label, score) # rest)"
    "annotations s1 = annotations s @ [annotation (title label)]"
    "annotated (calls s1) = annotated (calls s) @ [element_text x]"
    "elements s1 = elements s"
    by blast
  from Cons.IH [OF l] obtain anns where 2:
    "annotated (calls s') = annotated (calls s1) @ map element_text xs"
    "elements s' = elements s1" "annotations s' = annotations s1 @ anns"
    "list_all2 (\<lambda>e a. \<exists>label score rest.
          sentiment_pipeline env (element_text e) = Inr ((label, score) # rest)
        \<and> a = annotation (title label)) xs anns"
    by blast
  have "list_all2 (\<lambda>e a. \<exists>label score rest.
          sentiment_pipeline env (element_text e) = Inr ((label, score) # rest)
        \<and> a = annotation (title label)) (x # xs) (annotation (title label) # anns)"
    using 1(1) 2(4) by auto
  moreover have "annotations s' = annotations s @ annotation (title label) # anns"
    using 1(2) 2(3) by simp
  ultimately have "\<exists>anns. annotations s' = annotations s @ anns
          \<and> list_all2 (\<lambda>e a. \<exists>label score rest.
          sentiment_pipeline env (element_text e) = Inr ((label, score) # rest)
        \<and> a = annotation (title label)) (x # xs) anns"
    by blast
  with 1 2 show ?case by simp
qed

lemma stage_label_studio_success:
  assumes "stage_label_studio env s = (s', None)"
  shows "annotated (calls s') = annotated (calls s) @ map element_text (elements s')
    \<and> (\<exists>parts. comprehension (isd_to_elements env) (map snd (risk_factors s)) = Inr parts
          \<and> elements s' = concat parts)
    \<and> list_all2 (\<lambda>e a. \<exists>label score rest.
          sentiment_pipeline env (element_text e) = Inr ((label, score) # rest)
        \<and> a = annotation (title label)) (elements s') (annotations s')
    \<and> (StageForLabelStudio (elements s') (annotations s'), None) \<in> set (calls s')"
proof -
  let ?p = "Pipeline ''distilbert-base-uncased-finetuned-sst-2-english''"
  let ?d = "JsonDump ''sec-sentiment-analysis.json''"
  obtain s1 where 1: "for_loop (isd_step env) (map snd (risk_factors s)) (s\<lparr>elements := []\<rparr>)
      = (s1, None)"
    and r1: "then_run (opaque_call env ?p)
      (then_run (\<lambda>s. for_loop (annotate_step env) (elements s) (s\<lparr>annotations := []\<rparr>))
      (then_run (label_studio_step env) (opaque_call env ?d))) s1 = (s', None)"
    using assms unfolding stage_label_studio_def
    by (auto simp: then_run_def [of "\<lambda>s. for_loop (isd_step env) (map snd (risk_factors s))
          (s\<lparr>elements := []\<rparr>)"] split: prod.splits option.splits)
  obtain s2 where 2: "opaque_call env ?p s1 = (s2, None)"
    and r2: "then_run (\<lambda>s. for_loop (annotate_step env) (elements s) (s\<lparr>annotations := []\<rparr>))
      (then_run (label_studio_step env) (opaque_call env ?d)) s2 = (s', None)"
    using r1 by (auto simp: then_run_def [of "opaque_call env ?p"]
        split: prod.splits option.splits)
  obtain s3 where 3: "for_loop (annotate_step env) (elements s2) (s2\<lparr>annotations := []\<rparr>)
      = (s3, None)"
    and r3: "then_run (label_studio_step env) (opaque_call env ?d) s3 = (s', None)"
    using r2 by (auto simp: then_run_def
          [of "\<lambda>s. for_loop (annotate_step env) (elements s) (s\<lparr>annotations := []\<rparr>)"]
        split: prod.splits option.splits)
  have a1: "annotated (calls s1) = annotated (calls s)"
    using isd_loop_annotated [of env "map snd (risk_factors s)" "s\<lparr>elements := []\<rparr>"] 1
    by simp
  from isd_loop_success [OF 1] obtain parts where e1:
    "comprehension (isd_to_elements env) (map snd (risk_factors s)) = Inr parts"
    "elements s1 = concat parts"
    by auto
  have a2: "annotated (calls s2) = annotated (calls s1)" "elements s2 = elements s1"
    using 2 opaque_call_annotated [of ?p env s1] opaque_call_elements [of env ?p s1] by simp_all
  from annotate_loop_success [OF 3] have a3:
    "annotated (calls s3) = annotated (calls s2) @ map element_text (elements s2)"
    "elements s3 = elements s2"
    "list_all2 (\<lambda>e a. \<exists>label score rest.
          sentiment_pipeline env (element_text e) = Inr ((label, score) # rest)
        \<and> a = annotation (title label)) (elements s2) (annotations s3)"
    by auto
  have a4: "annotated (calls s') = annotated (calls s3)" "elements s' = elements s3"
    "annotations s' = annotations s3"
    "(StageForLabelStudio (elements s3) (annotations s3), None) \<in> set (calls s')"
    using r3
    by (auto simp: then_run_def label_studio_step_def opaque_call_def Let_def called_def
        raised_def annotated_append split: prod.splits option.splits sum.splits)
  from a1 a2 a3 a4 e1 show ?thesis by auto
qed

lemma train_success:
  assumes "train env s = (s', None)"
  shows "\<exists>data texts labels.
      json_load env ''sec-sentiment-analysis-labeled.json'' = Inr data
    \<and> dataset_columns data = Inr (texts, labels)
    \<and> calls s' = calls s @
        [(JsonLoad ''sec-sentiment-analysis-labeled.json'', None),
         (DatasetFromDict texts labels, None),
         (ModelFromPretrained ''distilbert-base-uncased'', None),
         (TokenizerFromPretrained ''distilbert-base-uncased'', None),
         (DatasetMap, None), (DataCollatorWithPadding, None), (MakeTrainer, None),
         (TrainerTrain, None)]"
  using assms
  by (auto simp: train_def then_run_def opaque_call_def called_def json_load_step_def
      from_dict_step_def Let_def raised_def
      split: prod.splits option.splits sum.splits)

lemma stage_filter_same:
  "\<forall>c \<in> set cs. stage_of (fst c) = k \<Longrightarrow>
     filter (\<lambda>c. stage_of c = k) (map fst cs) = map fst cs"
  by (induction cs) auto

lemma stage_filter_other:
  "\<forall>c \<in> set cs. stage_of (fst c) \<noteq> k \<Longrightarrow> filter (\<lambda>c. stage_of c = k) (map fst cs) = []"
  by (induction cs) auto

lemma run_cases:
  assumes "sec_sentiment_analysis env tickers s = (s', r)"
  obtains
    (fetching) e where "get_filings env tickers s = (s', Some e)" "r = Some e"
  | (extracting) s1 e where "get_filings env tickers s = (s1, None)"
      "extract_narrative env tickers s1 = (s', Some e)" "r = Some e"
  | (staging) s1 s2 e where "get_filings env tickers s = (s1, None)"
      "extract_narrative env tickers s1 = (s2, None)"
      "stage_label_studio env s2 = (s', Some e)" "r = Some e"
  | (training) s1 s2 s3 e where "get_filings env tickers s = (s1, None)"
      "extract_narrative env tickers s1 = (s2, None)"
      "stage_label_studio env s2 = (s3, None)"
      "train env s3 = (s', Some e)" "r = Some e"
  | (chunking) s1 s2 s3 s4 where "get_filings env tickers s = (s1, None)"
      "extract_narrative env tickers s1 = (s2, None)"
      "stage_label_studio env s2 = (s3, None)"
      "train env s3 = (s4, None)" "chunk env s4 = (s', r)"
proof -
  obtain s1 r1 where 1: "get_filings env tickers s = (s1, r1)"
    by (cases "get_filings env tickers s")
  obtain s2 r2 where 2: "extract_narrative env tickers s1 = (s2, r2)"
    by (cases "extract_narrative env tickers s1")
  obtain s3 r3 where 3: "stage_label_studio env s2 = (s3, r3)"
    by (cases "stage_label_studio env s2")
  obtain s4 r4 where 4: "train env s3 = (s4, r4)"
    by (cases "train env s3")
  show ?thesis
  proof (cases r1)
    case (Some e)
    with 1 assms have "s' = s1" "r = Some e"
      by (simp_all add: sec_sentiment_analysis_def then_run_raised)
    with 1 Some fetching show ?thesis by simp
  next
    case n1: None
    with 1 assms have a1: "then_run (extract_narrative env tickers)
        (then_run (stage_label_studio env) (then_run (train env) (chunk env))) s1 = (s', r)"
      by (simp add: sec_sentiment_analysis_def then_run_returned)
    show ?thesis
    proof (cases r2)
      case (Some e)
      with 2 a1 have "s' = s2" "r = Some e"
        by (simp_all add: then_run_raised)
      with 1 2 n1 Some extracting show ?thesis by simp
    next
      case n2: None
      with 2 a1 have a2: "then_run (stage_label_studio env)
          (then_run (train env) (chunk env)) s2 = (s', r)"
        by (simp add: then_run_returned)
      show ?thesis
      proof (cases r3)
        case (Some e)
        with 3 a2 have "s' = s3" "r = Some e"
          by (simp_all add: then_run_raised)
        with 1 2 3 n1 n2 Some staging show ?thesis by simp
      next
        case n3: None
        with 3 a2 have a3: "then_run (train env) (chunk env) s3 = (s', r)"
          by (simp add: then_run_returned)
        show ?thesis
        proof (cases r4)
          case (Some e)
          with 4 a3 have "s' = s4" "r = Some e"
            by (simp_all add: then_run_raised)
          with 1 2 3 4 n1 n2 n3 Some training show ?thesis by simp
        next
          case n4: None
          with 4 a3 have "chunk env s4 = (s', r)"
            by (simp add: then_run_returned)
          with 1 2 3 4 n1 n2 n3 n4 chunking show ?thesis by simp
        qed
      qed
    qed
  qed
qed

lemma run_returned:
  assumes "sec_sentiment_analysis env tickers s = (s', None)"
  obtains s1 s2 s3 s4 where "get_filings env tickers s = (s1, None)"
    and "extract_narrative env tickers s1 = (s2, None)"
    and "stage_label_studio env s2 = (s3, None)"
    and "train env s3 = (s4, None)" and "chunk env s4 = (s', None)"
  using assms by (cases rule: run_cases) auto

lemma run_derived:
  assumes "sec_sentiment_analysis env tickers s = (s', None)"
  shows "list_all2 (\<lambda>e a. \<exists>label score rest.
          sentiment_pipeline env (element_text e) = Inr ((label, score) # rest)
        \<and> a = annotation (title label)) (elements s') (annotations s')
    \<and> (StageForLabelStudio (elements s') (annotations s'), None) \<in> set (calls s')
    \<and> (\<exists>data texts labels.
          json_load env ''sec-sentiment-analysis-labeled.json'' = Inr data
        \<and> dataset_columns data = Inr (texts, labels)
        \<and> (DatasetFromDict texts labels, None) \<in> set (calls s'))
    \<and> (TrainerTrain, None) \<in> set (calls s')"
proof -
  from assms obtain s2 s3 s4 where 3: "stage_label_studio env s2 = (s3, None)"
    and 4: "train env s3 = (s4, None)" and 5: "chunk env s4 = (s', None)"
    by (rule run_returned)
  have k: "elements s' = elements s3" "annotations s' = annotations s3"
    using train_kept [of env s3] 4 chunk_kept [of env s4] 5 by simp_all
  from train_success [OF 4] obtain data texts labels where d:
    "json_load env ''sec-sentiment-analysis-labeled.json'' = Inr data"
    "dataset_columns data = Inr (texts, labels)"
    "calls s4 = calls s3 @
        [(JsonLoad ''sec-sentiment-analysis-labeled.json'', None),
         (DatasetFromDict texts labels, None),
         (ModelFromPretrained ''distilbert-base-uncased'', None),
         (TokenizerFromPretrained ''distilbert-base-uncased'', None),
         (DatasetMap, None), (DataCollatorWithPadding, None), (MakeTrainer, None),
         (TrainerTrain, None)]"
    by blast
  from chunk_logs [of env s4] 5 obtain n5 where n5: "calls s' = calls s4 @ n5" by auto
  note u = stage_label_studio_success [OF 3]
  have 1: "list_all2 (\<lambda>e a. \<exists>label score rest.
          sentiment_pipeline env (element_text e) = Inr ((label, score) # rest)
        \<and> a = annotation (title label)) (elements s') (annotations s')"
    using u unfolding k by blast
  have 2: "(StageForLabelStudio (elements s') (annotations s'), None) \<in> set (calls s')"
    using u unfolding k n5 d(3) by auto
  have "(DatasetFromDict texts labels, None) \<in> set (calls s')"
    unfolding n5 d(3) by simp
  with d(1,2) have 3: "\<exists>data texts labels.
          json_load env ''sec-sentiment-analysis-labeled.json'' = Inr data
        \<and> dataset_columns data = Inr (texts, labels)
        \<and> (DatasetFromDict texts labels, None) \<in> set (calls s')"
    by blast
  have 4: "(TrainerTrain, None) \<in> set (calls s')"
    unfolding n5 d(3) by simp
  from 1 2 3 4 show ?thesis by (intro conjI)
qed

lemma read_back:
  assumes "map Some contents = map f ts"
    and "\<forall>t \<in> set ts. \<exists>x. g t = Inr x \<and> f t = Some x"
  shows "map Inr contents = map g ts"
  using assms
proof (induction ts arbitrary: contents)
  case Nil
  then show ?case by simp
next
  case (Cons t ts)
  from Cons.prems(1) obtain c cs where c: "contents = c # cs" "Some c = f t"
    "map Some cs = map f ts"
    by (cases contents) auto
  from Cons.prems(2) obtain x where "g t = Inr x" "f t = Some x" by auto
  with c Cons.IH [of cs] Cons.prems(2) show ?case by simp
qed

lemma run_parts:
  assumes "sec_sentiment_analysis env tickers s = (s', r)" and "calls s = []"
  obtains s1 s2 s3 n1 n2 n3 n4 n5 where
    "calls s' = n1 @ n2 @ n3 @ n4 @ n5"
    and "\<forall>c \<in> set n1. stage_of (fst c) = 1" and "\<forall>c \<in> set n2. stage_of (fst c) = 2"
    and "\<forall>c \<in> set n3. stage_of (fst c) = 3" and "\<forall>c \<in> set n4. stage_of (fst c) = 4"
    and "\<forall>c \<in> set n5. stage_of (fst c) = 5"
    and "n2 @ n3 @ n4 @ n5 \<noteq> [] \<longrightarrow>
          get_filings env tickers s = (s1, None) \<and> calls s1 = n1 \<and> files s' = files s1"
    and "n3 @ n4 @ n5 \<noteq> [] \<longrightarrow>
          extract_narrative env tickers s1 = (s2, None) \<and> calls s2 = n1 @ n2
        \<and> files s' = files s2 \<and> url s' = url s2 \<and> risk_factors s' = risk_factors s2"
    and "n4 @ n5 \<noteq> [] \<longrightarrow>
          stage_label_studio env s2 = (s3, None) \<and> calls s3 = n1 @ n2 @ n3
        \<and> elements s' = elements s3 \<and> annotations s' = annotations s3"
    and "r = None \<longrightarrow> n4 \<noteq> [] \<and> (\<exists>s4. train env s3 = (s4, None) \<and> calls s4 = n1 @ n2 @ n3 @ n4)"
  using assms(1)
proof (cases rule: run_cases)
  case (fetching e)
  from get_filings_logs [of env tickers s] fetching(1) assms(2)
  have "\<forall>c \<in> set (calls s'). stage_of (fst c) = 1" by auto
  with fetching(2) that [of "calls s'" "[]" "[]" "[]" "[]" s' s' s'] show ?thesis by simp
next
  case (extracting s1 e)
  from get_filings_logs [of env tickers s] extracting(1) assms(2)
  have 1: "\<forall>c \<in> set (calls s1). stage_of (fst c) = 1" by auto
  from extract_narrative_logs [of env tickers s1] extracting(2) obtain n2
    where 2: "calls s' = calls s1 @ n2" "\<forall>c \<in> set n2. stage_of (fst c) = 2" by auto
  have "files s' = files s1"
    using extract_narrative_files [of env tickers s1] extracting(2) by simp
  with extracting 1 2 that [of "calls s1" n2 "[]" "[]" "[]" s1 s' s'] show ?thesis by simp
next
  case (staging s1 s2 e)
  from get_filings_logs [of env tickers s] staging(1) assms(2)
  have 1: "\<forall>c \<in> set (calls s1). stage_of (fst c) = 1" by auto
  from extract_narrative_logs [of env tickers s1] staging(2) obtain n2
    where 2: "calls s2 = calls s1 @ n2" "\<forall>c \<in> set n2. stage_of (fst c) = 2" by auto
  from stage_label_studio_logs [of env s2] staging(3) obtain n3
    where 3: "calls s' = calls s2 @ n3" "\<forall>c \<in> set n3. stage_of (fst c) = 3" by auto
  have k: "files s2 = files s1" "files s' = files s2" "url s' = url s2"
    "risk_factors s' = risk_factors s2"
    using extract_narrative_files [of env tickers s1] staging(2)
      stage_label_studio_kept [of env s2] staging(3) by simp_all
  with staging 1 2 3 that [of "calls s1" n2 n3 "[]" "[]" s1 s2 s'] show ?thesis by simp
next
  case (training s1 s2 s3 e)
  from get_filings_logs [of env tickers s] training(1) assms(2)
  have 1: "\<forall>c \<in> set (calls s1). stage_of (fst c) = 1" by auto
  from extract_narrative_logs [of env tickers s1] training(2) obtain n2
    where 2: "calls s2 = calls s1 @ n2" "\<forall>c \<in> set n2. stage_of (fst c) = 2" by auto
  from stage_label_studio_logs [of env s2] training(3) obtain n3
    where 3: "calls s3 = calls s2 @ n3" "\<forall>c \<in> set n3. stage_of (fst c) = 3" by auto
  from train_logs [of env s3] training(4) obtain n4
    where 4: "calls s' = calls s3 @ n4" "\<forall>c \<in> set n4. stage_of (fst c) = 4" by auto
  have k: "files s2 = files s1" "files s3 = files s2" "url s3 = url s2"
    "risk_factors s3 = risk_factors s2"
    "files s' = files s3" "url s' = url s3" "risk_factors s' = risk_factors s3"
    "elements s' = elements s3" "annotations s' = annotations s3"
    using extract_narrative_files [of env tickers s1] training(2)
      stage_label_studio_kept [of env s2] training(3)
      train_kept [of env s3] training(4) by simp_all
  with training 1 2 3 4 that [of "calls s1" n2 n3 n4 "[]" s1 s2 s3] show ?thesis by simp
next
  case (chunking s1 s2 s3 s4)
  from get_filings_logs [of env tickers s] chunking(1) assms(2)
  have 1: "\<forall>c \<in> set (calls s1). stage_of (fst c) = 1" by auto
  from extract_narrative_logs [of env tickers s1] chunking(2) obtain n2
    where 2: "calls s2 = calls s1 @ n2" "\<forall>c \<in> set n2. stage_of (fst c) = 2" by auto
  from stage_label_studio_logs [of env s2] chunking(3) obtain n3
    where 3: "calls s3 = calls s2 @ n3" "\<forall>c \<in> set n3. stage_of (fst c) = 3" by auto
  from train_logs [of env s3] chunking(4) obtain n4
    where 4: "calls s4 = calls s3 @ n4" "\<forall>c \<in> set n4. stage_of (fst c) = 4" by auto
  from chunk_logs [of env s4] chunking(5) obtain n5
    where 5: "calls s' = calls s4 @ n5" "\<forall>c \<in> set n5. stage_of (fst c) = 5" by auto
  from train_success [OF chunking(4)] 4(1) have n4: "n4 \<noteq> []" by auto
  have k: "files s2 = files s1" "files s3 = files s2" "url s3 = url s2"
    "risk_factors s3 = risk_factors s2"
    "files s4 = files s3" "url s4 = url s3" "risk_factors s4 = risk_factors s3"
    "elements s4 = elements s3" "annotations s4 = annotations s3"
    "files s' = files s4" "url s' = url s4" "risk_factors s' = risk_factors s4"
    "elements s' = elements s4" "annotations s' = annotations s4"
    using extract_narrative_files [of env tickers s1] chunking(2)
      stage_label_studio_kept [of env s2] chunking(3)
      train_kept [of env s3] chunking(4)
      chunk_kept [of env s4] chunking(5) by simp_all
  with chunking 1 2 3 4 5 n4 that [of "calls s1" n2 n3 n4 n5 s1 s2 s3] show ?thesis by simp
qed

subsection \<open>SEC notebook: sample runs\<close>

lemma failing_run:
  "calls (fst (sec_sentiment_analysis failing_env [''mrk''] (fresh []))) =
     [(GetFormByTicker ''mrk'', None), (GetVersion, None),
      (RequestsPost ''https://api.unstructured.io/sec-filings/v0.2.0/section'' ''form mrk'', None),
      (RaiseForStatus, Some (Raised ''HTTPError''))]
   \<and> snd (sec_sentiment_analysis failing_env [''mrk''] (fresh [])) = Some (Raised ''HTTPError'')"
  by (simp add: sec_sentiment_analysis_def then_run_def get_filings_def extract_narrative_def
      fetch_step_def version_step_def extract_step_def failing_env_def sample_env_def
      sample_response_def fresh_def called_def raised_def Let_def make_directory_def
      resolve_def form_filename_def data_directory_def text_file_def path_join_def)

lemma title_NEGATIVE: "title ''NEGATIVE'' = ''Negative''"
  by code_simp

lemma sample_run:
  "sec_sentiment_analysis sample_env [''ehc''] (fresh []) =
    (\<lparr>calls =
        [(GetFormByTicker ''ehc'', None), (GetVersion, None),
         (RequestsPost ''https://api.unstructured.io/sec-filings/v0.2.0/section'' ''form ehc'',
          None),
         (RaiseForStatus, None), (ResponseJson, None),
         (IsdToElements (PList [PStr ''form ehc'']), None),
         (Pipeline ''distilbert-base-uncased-finetuned-sst-2-english'', None),
         (SentimentPipeline ''risk'', None),
         (StageForLabelStudio [sample_element ''risk''] [annotation ''Negative''], None),
         (JsonDump ''sec-sentiment-analysis.json'', None),
         (JsonLoad ''sec-sentiment-analysis-labeled.json'', None),
         (DatasetFromDict [PStr ''risk''] [0], None),
         (ModelFromPretrained ''distilbert-base-uncased'', None),
         (TokenizerFromPretrained ''distilbert-base-uncased'', None),
         (DatasetMap, None), (DataCollatorWithPadding, None), (MakeTrainer, None),
         (TrainerTrain, None),
         (SaveModel ''sec-sentiment-model'', None), (Pipeline ''./sec-sentiment-model'', None),
         (SecSentimentModel [''risk''], None),
         (StageForTransformers [sample_element ''risk''], None),
         (SecSentimentModel [''risk''], None)],
      elements = [sample_element ''risk''],
      files = [([''work'', ''xbrl-forms'', ''ehc-10k.xbrl''], ''form ehc'')],
      url = ''https://api.unstructured.io/sec-filings/v0.2.0/section'',
      risk_factors = [(''ehc'', PList [PStr ''form ehc''])],
      annotations = [annotation ''Negative''],
      label_studio_data = PList [annotation ''Negative''],
      training_data = [PDict [(''text'', PStr ''risk''), (''sentiment'', PStr ''Negative'')]],
      chunked_text = [''risk'']\<rparr>, None)"
  by (simp add: sec_sentiment_analysis_def then_run_def get_filings_def extract_narrative_def
      stage_label_studio_def train_def chunk_def
      fetch_step_def version_step_def extract_step_def isd_step_def annotate_step_def
      label_studio_step_def json_load_step_def from_dict_step_def first_element_step_def
      chunk_step_def opaque_call_def sample_env_def
      sample_response_def fresh_def called_def raised_def Let_def
      dataset_columns_def item_label_def label_of_def getitem_def setitem_def
      title_NEGATIVE sample_element_def make_directory_def
      resolve_def form_filename_def data_directory_def text_file_def path_join_def)

subsection \<open>Ordering the hits\<close>

lemma sorted_wrt_lex_filter:
  fixes g :: "'a \<Rightarrow> real"
  shows "sorted_wrt (\<lambda>a b. g b < g a \<or> (g a = g b \<and> P a b)) xs \<longleftrightarrow>
     sorted_wrt (\<lambda>a b. g b \<le> g a) xs \<and> (\<forall>k. sorted_wrt P (filter (\<lambda>y. g y = k) xs))"
proof (induction xs)
  case Nil
  then show ?case by simp
next
  case (Cons x xs)
  show ?case
    unfolding sorted_wrt.simps Cons.IH
    by (auto simp: less_le)
qed

lemma sorted_reverse_descending:
  "sorted_wrt (\<lambda>a b. key b \<le> key a) (sorted_reverse key xs)"
proof -
  have "sorted (map key (sort_key key (rev xs)))" by simp
  then have "sorted_wrt (\<lambda>a b. key a \<le> key b) (sort_key key (rev xs))"
    by (simp add: sorted_map)
  then show ?thesis
    by (simp add: sorted_reverse_def sorted_wrt_rev)
qed

lemma sorted_reverse_stable:
  "filter (\<lambda>y. key y = k) (sorted_reverse key xs) = filter (\<lambda>y. key y = k) xs"
  by (simp add: sorted_reverse_def rev_filter [symmetric] sort_key_stable)

lemma mset_sorted_reverse: "mset (sorted_reverse key xs) = mset xs"
  by (simp add: sorted_reverse_def)

section \<open>The claims\<close>

text \<open>
  C1 (amended). Cleaning, scoring, parsing, dataframe conversion, loading and fine-tuning
  are calls into libraries whose results the notebooks hand on, but the notebook code
  also computes values of its own.

  Every document that the Elasticsearch notebook sends to the index is the dictionary of
  one of the staged elements (distinct objects) in which \<open>text\<close> is what
  \<^verbatim>\<open>clean_extra_whitespace\<close> returned for the staged text, \<open>polarity\<close> and
  \<open>subjectivity\<close> are the two scores that TextBlob returned for the cleaned text,
  rounded by the notebook to 4 decimal places, and \<open>sentiment\<close> is a label that the
  notebook derives itself from the sign of the rounded polarity.

  Every dataframe that the MySQL notebook gives to \<^verbatim>\<open>to_sql\<close> is what
  \<^verbatim>\<open>convert_to_dataframe\<close> returned for the concatenated results of
  \<^verbatim>\<open>partition\<close>.

  In a run of the SEC notebook that ends without an exception, the annotations handed to
  \<^verbatim>\<open>stage_for_label_studio\<close> are built by the notebook, one per element, from
  the title-cased label of the first inference that the sentiment pipeline returned for
  the element's text; the two columns handed to \<^verbatim>\<open>Dataset.from_dict\<close> are
  those that the notebook builds from the loaded training data, the label column being
  its own 0/1 encoding; and \<^verbatim>\<open>trainer.train()\<close> has been called.
\<close>

theorem stored_values_origin:
  "(distinct tds \<longrightarrow>
      (\<forall>doc \<in> set (index_calls (calls (fst (clean_and_load cew TextBlob es_index tds h)))).
         \<exists>a \<in> set tds. \<exists>t t' pol subj.
            getitem (h a) ''text'' = Inr t \<and> cew t = Inr t' \<and> TextBlob t' = Inr (pol, subj)
          \<and> doc = setitem (setitem (setitem (setitem (h a) ''text'' t')
                 ''polarity'' (PFloat (round_ndigits pol 4)))
                 ''subjectivity'' (PFloat (round_ndigits subj 4)))
                 ''sentiment'' (PStr (sentiment_of (round_ndigits pol 4)))))
   \<and> (\<forall>df \<in> set (to_sql_calls (calls (fst (load_into_mysql partition_auto
            convert_to_dataframe to_sql read_sql_query q docs)))).
         \<exists>parts.
            comprehension (\<lambda>d. partition_auto (path_join EXAMPLE_DOCS_FOLDER d)) docs = Inr parts
          \<and> convert_to_dataframe (concat parts) = Inr df)
   \<and> (sec_sentiment_analysis env tickers (fresh fs) = (s', None) \<longrightarrow>
          list_all2 (\<lambda>e a. \<exists>label score rest.
                sentiment_pipeline env (element_text e) = Inr ((label, score) # rest)
              \<and> a = annotation (title label)) (elements s') (annotations s')
          \<and> (StageForLabelStudio (elements s') (annotations s'), None) \<in> set (calls s')
          \<and> (\<exists>data texts labels.
                json_load env ''sec-sentiment-analysis-labeled.json'' = Inr data
              \<and> dataset_columns data = Inr (texts, labels)
              \<and> (DatasetFromDict texts labels, None) \<in> set (calls s'))
          \<and> (TrainerTrain, None) \<in> set (calls s'))"
proof (intro conjI)
  show "(distinct tds \<longrightarrow>
      (\<forall>doc \<in> set (index_calls (calls (fst (clean_and_load cew TextBlob es_index tds h)))).
         \<exists>a \<in> set tds. \<exists>t t' pol subj.
            getitem (h a) ''text'' = Inr t \<and> cew t = Inr t' \<and> TextBlob t' = Inr (pol, subj)
          \<and> doc = setitem (setitem (setitem (setitem (h a) ''text'' t')
                 ''polarity'' (PFloat (round_ndigits pol 4)))
                 ''subjectivity'' (PFloat (round_ndigits subj 4)))
                 ''sentiment'' (PStr (sentiment_of (round_ndigits pol 4)))))"
    using clean_and_load_document [of tds _ cew TextBlob es_index h] by blast
next
  show "(\<forall>df \<in> set (to_sql_calls (calls (fst (load_into_mysql partition_auto
            convert_to_dataframe to_sql read_sql_query q docs)))).
         \<exists>parts.
            comprehension (\<lambda>d. partition_auto (path_join EXAMPLE_DOCS_FOLDER d)) docs = Inr parts
          \<and> convert_to_dataframe (concat parts) = Inr df)"
    using load_into_mysql_stored
      [of _ partition_auto convert_to_dataframe to_sql read_sql_query q docs]
    by blast
next
  show "(sec_sentiment_analysis env tickers (fresh fs) = (s', None) \<longrightarrow>
          list_all2 (\<lambda>e a. \<exists>label score rest.
                sentiment_pipeline env (element_text e) = Inr ((label, score) # rest)
              \<and> a = annotation (title label)) (elements s') (annotations s')
          \<and> (StageForLabelStudio (elements s') (annotations s'), None) \<in> set (calls s')
          \<and> (\<exists>data texts labels.
                json_load env ''sec-sentiment-analysis-labeled.json'' = Inr data
              \<and> dataset_columns data = Inr (texts, labels)
              \<and> (DatasetFromDict texts labels, None) \<in> set (calls s'))
          \<and> (TrainerTrain, None) \<in> set (calls s'))"
    using run_derived [of env tickers "fresh fs" s'] by blast
qed

theorem stored_values_origin_witness:
  "distinct sample_dicts
   \<and> [(''element_id'', PStr ''e0''), (''text'', PStr ''bad''),
      (''polarity'', PFloat (- 7 / 10)), (''subjectivity'', PFloat (6667 / 10000)),
      (''sentiment'', PStr ''negative'')]
     \<in> set (index_calls (calls (fst (clean_and_load sample_clean sample_TextBlob sample_es_index sample_dicts sample_heap))))
   \<and> (\<exists>a \<in> set sample_dicts. \<exists>t t' pol subj.
          getitem (sample_heap a) ''text'' = Inr t \<and> sample_clean t = Inr t'
        \<and> sample_TextBlob t' = Inr (pol, subj)
        \<and> [(''element_id'', PStr ''e0''), (''text'', PStr ''bad''),
      (''polarity'', PFloat (- 7 / 10)), (''subjectivity'', PFloat (6667 / 10000)),
      (''sentiment'', PStr ''negative'')]
          = setitem (setitem (setitem (setitem (sample_heap a) ''text'' t')
                 ''polarity'' (PFloat (round_ndigits pol 4)))
                 ''subjectivity'' (PFloat (round_ndigits subj 4)))
                 ''sentiment'' (PStr (sentiment_of (round_ndigits pol 4))))
   \<and> [[(''text'', PStr ''../../example-docs/fake-email.eml'')], [(''text'', PStr ''more'')],
      [(''text'', PStr ''../../example-docs/fake.docx'')], [(''text'', PStr ''more'')]]
     \<in> set (to_sql_calls (calls (fst (load_into_mysql sample_partition sample_convert sample_to_sql sample_read ''q''
        [''fake-email.eml'', ''fake.docx'']))))
   \<and> (\<exists>parts.
          comprehension (\<lambda>d. sample_partition (path_join EXAMPLE_DOCS_FOLDER d))
            [''fake-email.eml'', ''fake.docx''] = Inr parts
        \<and> sample_convert (concat parts) = Inr
            [[(''text'', PStr ''../../example-docs/fake-email.eml'')], [(''text'', PStr ''more'')],
      [(''text'', PStr ''../../example-docs/fake.docx'')], [(''text'', PStr ''more'')]])
   \<and> sec_sentiment_analysis sample_env [''ehc''] (fresh []) = (fst (sec_sentiment_analysis sample_env [''ehc''] (fresh [])), None)
   \<and> annotations (fst (sec_sentiment_analysis sample_env [''ehc''] (fresh []))) = [annotation ''Negative'']
   \<and> list_all2 (\<lambda>e a. \<exists>label score rest.
            sentiment_pipeline sample_env (element_text e) = Inr ((label, score) # rest)
          \<and> a = annotation (title label))
        (elements (fst (sec_sentiment_analysis sample_env [''ehc''] (fresh [])))) (annotations (fst (sec_sentiment_analysis sample_env [''ehc''] (fresh []))))
      \<and> (StageForLabelStudio (elements (fst (sec_sentiment_analysis sample_env [''ehc''] (fresh [])))) (annotations (fst (sec_sentiment_analysis sample_env [''ehc''] (fresh [])))), None)
          \<in> set (calls (fst (sec_sentiment_analysis sample_env [''ehc''] (fresh []))))
      \<and> (\<exists>data texts labels.
            json_load sample_env ''sec-sentiment-analysis-labeled.json'' = Inr data
          \<and> dataset_columns data = Inr (texts, labels)
          \<and> (DatasetFromDict texts labels, None) \<in> set (calls (fst (sec_sentiment_analysis sample_env [''ehc''] (fresh [])))))
      \<and> (TrainerTrain, None) \<in> set (calls (fst (sec_sentiment_analysis sample_env [''ehc''] (fresh []))))"
proof -
  have d: "distinct sample_dicts"
    by (simp add: sample_dicts_def)
  have m: "[(''element_id'', PStr ''e0''), (''text'', PStr ''bad''),
      (''polarity'', PFloat (- 7 / 10)), (''subjectivity'', PFloat (6667 / 10000)),
      (''sentiment'', PStr ''negative'')]
     \<in> set (index_calls (calls (fst (clean_and_load sample_clean sample_TextBlob sample_es_index sample_dicts sample_heap))))"
    unfolding sample_clean_and_load_calls by simp
  have f: "[[(''text'', PStr ''../../example-docs/fake-email.eml'')], [(''text'', PStr ''more'')],
      [(''text'', PStr ''../../example-docs/fake.docx'')], [(''text'', PStr ''more'')]]
     \<in> set (to_sql_calls (calls (fst (load_into_mysql sample_partition sample_convert sample_to_sql sample_read ''q''
        [''fake-email.eml'', ''fake.docx'']))))"
    using sample_load_into_mysql by simp
  have r: "sec_sentiment_analysis sample_env [''ehc''] (fresh []) = (fst (sec_sentiment_analysis sample_env [''ehc''] (fresh [])), None)"
    and a: "annotations (fst (sec_sentiment_analysis sample_env [''ehc''] (fresh []))) = [annotation ''Negative'']"
    unfolding sample_run by simp_all
  note inst = stored_values_origin [of sample_dicts sample_clean sample_TextBlob sample_es_index
      sample_heap sample_partition sample_convert sample_to_sql sample_read "''q''"
      "[''fake-email.eml'', ''fake.docx'']" sample_env "[''ehc'']" "[]"
      "fst (sec_sentiment_analysis sample_env [''ehc''] (fresh []))"]
  have 1: "(\<exists>a \<in> set sample_dicts. \<exists>t t' pol subj.
          getitem (sample_heap a) ''text'' = Inr t \<and> sample_clean t = Inr t'
        \<and> sample_TextBlob t' = Inr (pol, subj)
        \<and> [(''element_id'', PStr ''e0''), (''text'', PStr ''bad''),
      (''polarity'', PFloat (- 7 / 10)), (''subjectivity'', PFloat (6667 / 10000)),
      (''sentiment'', PStr ''negative'')]
          = setitem (setitem (setitem (setitem (sample_heap a) ''text'' t')
                 ''polarity'' (PFloat (round_ndigits pol 4)))
                 ''subjectivity'' (PFloat (round_ndigits subj 4)))
                 ''sentiment'' (PStr (sentiment_of (round_ndigits pol 4))))"
    using inst [THEN conjunct1, THEN mp, OF d, THEN bspec, OF m] .
  have 2: "(\<exists>parts.
          comprehension (\<lambda>d. sample_partition (path_join EXAMPLE_DOCS_FOLDER d))
            [''fake-email.eml'', ''fake.docx''] = Inr parts
        \<and> sample_convert (concat parts) = Inr
            [[(''text'', PStr ''../../example-docs/fake-email.eml'')], [(''text'', PStr ''more'')],
      [(''text'', PStr ''../../example-docs/fake.docx'')], [(''text'', PStr ''more'')]])"
    using inst [THEN conjunct2, THEN conjunct1, THEN bspec, OF f] .
  note sec = inst [THEN conjunct2, THEN conjunct2, THEN mp, OF r]
  from d m 1 f 2 r a sec [THEN conjunct1] sec [THEN conjunct2, THEN conjunct1]
    sec [THEN conjunct2, THEN conjunct2, THEN conjunct1]
    sec [THEN conjunct2, THEN conjunct2, THEN conjunct2]
  show ?thesis
    by (intro conjI)
qed

text \<open>
  C1 as stated fails. The sample run has five staged dictionaries and ends without an
  exception. On the first, TextBlob returns the polarity -0.6999999999999998, and the
  document sent to the index holds the polarity -0.7 and the sentiment \<open>negative\<close>:
  two values that no library call returned and that the staged dictionary did not hold.
\<close>

theorem derived_values_counterexample:
  "snd (clean_and_load sample_clean sample_TextBlob sample_es_index sample_dicts sample_heap) = None
   \<and> sample_clean (PStr (''bad'' @ [CHR 0x0A])) = Inr (PStr ''bad'')
   \<and> sample_TextBlob (PStr ''bad'') = Inr (- 6999999999999998 / 10000000000000000, 6666666666666666 / 10000000000000000)
   \<and> getitem (sample_heap 0) ''polarity'' = Inl (KeyError ''polarity'')
   \<and> getitem (sample_heap 0) ''sentiment'' = Inl (KeyError ''sentiment'')
   \<and> getitem (index_calls (calls (fst (clean_and_load sample_clean sample_TextBlob sample_es_index sample_dicts sample_heap))) ! 0)
        ''polarity'' = Inr (PFloat (- 7 / 10))
   \<and> getitem (index_calls (calls (fst (clean_and_load sample_clean sample_TextBlob sample_es_index sample_dicts sample_heap))) ! 0)
        ''sentiment'' = Inr (PStr ''negative'')"
  unfolding sample_clean_and_load_calls sample_clean_and_load_returns
  by (simp add: sample_clean_def sample_TextBlob_def sample_heap_def getitem_def)

text \<open>
  C2. Every document that the load loop passes to \<^verbatim>\<open>es_client.index\<close> has a
  \<open>polarity\<close> entry, the TextBlob polarity of its text rounded to 4 decimal places, and
  a \<open>sentiment\<close> entry that is \<open>negative\<close> exactly when that polarity is below 0,
  \<open>neutral\<close> exactly when it is 0 and \<open>positive\<close> exactly when it is above 0; the
  sentiment is always one of the three.
\<close>

theorem sentiment_matches_polarity:
  fixes s :: es_notebook
  assumes "index_calls (calls s) = []"
  shows "\<forall>doc \<in> set (index_calls (calls (fst (for_loop (index_step TextBlob es_index) elems s)))).
    \<exists>t pol subj p snt.
      getitem doc ''text'' = Inr t \<and> TextBlob t = Inr (pol, subj) \<and> p = round_ndigits pol 4
      \<and> getitem doc ''polarity'' = Inr (PFloat p)
      \<and> getitem doc ''sentiment'' = Inr (PStr snt)
      \<and> (snt = ''negative'' \<longleftrightarrow> p < 0)
      \<and> (snt = ''neutral'' \<longleftrightarrow> p = 0)
      \<and> (snt = ''positive'' \<longleftrightarrow> 0 < p)
      \<and> snt \<in> {''negative'', ''neutral'', ''positive''}"
proof
  fix doc
  assume "doc \<in> set (index_calls (calls (fst (for_loop (index_step TextBlob es_index) elems s))))"
  from index_loop_scored [OF assms this] obtain d t pol subj where d:
    "getitem d ''text'' = Inr t" "TextBlob t = Inr (pol, subj)"
    "doc = setitem (setitem (setitem d
       ''polarity'' (PFloat (round_ndigits pol 4)))
       ''subjectivity'' (PFloat (round_ndigits subj 4)))
       ''sentiment'' (PStr (sentiment_of (round_ndigits pol 4)))"
    by (elim exE conjE)
  have g: "getitem doc ''text'' = Inr t"
    "getitem doc ''polarity'' = Inr (PFloat (round_ndigits pol 4))"
    "getitem doc ''sentiment'' = Inr (PStr (sentiment_of (round_ndigits pol 4)))"
    unfolding d(3) using d(1) by (simp_all add: getitem_setitem)
  show "\<exists>t pol subj p snt.
      getitem doc ''text'' = Inr t \<and> TextBlob t = Inr (pol, subj) \<and> p = round_ndigits pol 4
      \<and> getitem doc ''polarity'' = Inr (PFloat p)
      \<and> getitem doc ''sentiment'' = Inr (PStr snt)
      \<and> (snt = ''negative'' \<longleftrightarrow> p < 0)
      \<and> (snt = ''neutral'' \<longleftrightarrow> p = 0)
      \<and> (snt = ''positive'' \<longleftrightarrow> 0 < p)
      \<and> snt \<in> {''negative'', ''neutral'', ''positive''}"
    using g d(2) sentiment_of_cases [of "round_ndigits pol 4"]
      sentiment_of_range [of "round_ndigits pol 4"]
    apply -
    apply (rule exI [of _ t], rule exI [of _ pol], rule exI [of _ subj])
    apply (rule exI [of _ "round_ndigits pol 4"])
    apply (rule exI [of _ "sentiment_of (round_ndigits pol 4)"])
    apply (intro conjI)
            apply (assumption | rule refl | blast)+
    done
qed

theorem sentiment_matches_polarity_witness:
  "index_calls (calls sample_cleaned) = []
   \<and> length (index_calls (calls
        (fst (for_loop (index_step sample_TextBlob sample_es_index) [0, 1] sample_cleaned)))) = 2
   \<and> (\<exists>t pol subj p snt.
        getitem [(''element_id'', PStr ''e0''), (''text'', PStr ''bad''),
           (''polarity'', PFloat (- 7 / 10)), (''subjectivity'', PFloat (6667 / 10000)),
           (''sentiment'', PStr ''negative'')] ''text'' = Inr t
      \<and> sample_TextBlob t = Inr (pol, subj) \<and> p = round_ndigits pol 4
      \<and> getitem [(''element_id'', PStr ''e0''), (''text'', PStr ''bad''),
           (''polarity'', PFloat (- 7 / 10)), (''subjectivity'', PFloat (6667 / 10000)),
           (''sentiment'', PStr ''negative'')] ''polarity'' = Inr (PFloat p)
      \<and> getitem [(''element_id'', PStr ''e0''), (''text'', PStr ''bad''),
           (''polarity'', PFloat (- 7 / 10)), (''subjectivity'', PFloat (6667 / 10000)),
           (''sentiment'', PStr ''negative'')] ''sentiment'' = Inr (PStr snt)
      \<and> (snt = ''negative'' \<longleftrightarrow> p < 0)
      \<and> (snt = ''neutral'' \<longleftrightarrow> p = 0)
      \<and> (snt = ''positive'' \<longleftrightarrow> 0 < p)
      \<and> snt \<in> {''negative'', ''neutral'', ''positive''})"
proof -
  have e: "index_calls (calls sample_cleaned) = []"
    by (simp add: sample_cleaned_def)
  have m: "[(''element_id'', PStr ''e0''), (''text'', PStr ''bad''),
           (''polarity'', PFloat (- 7 / 10)), (''subjectivity'', PFloat (6667 / 10000)),
           (''sentiment'', PStr ''negative'')]
    \<in> set (index_calls (calls
        (fst (for_loop (index_step sample_TextBlob sample_es_index) [0, 1] sample_cleaned))))"
    unfolding sample_load_calls by simp
  have l: "length (index_calls (calls
        (fst (for_loop (index_step sample_TextBlob sample_es_index) [0, 1] sample_cleaned)))) = 2"
    unfolding sample_load_calls by simp
  from e l bspec [OF sentiment_matches_polarity [OF e, of sample_TextBlob sample_es_index "[0, 1]"] m]
  show ?thesis
    by (intro conjI)
qed

text \<open>
  C3 (amended). Records do not pass through unchanged. When the staged dictionaries are
  distinct objects and the run ends without an exception, every staged record is, after
  the run, the staged record with \<open>text\<close> replaced by what
  \<^verbatim>\<open>clean_extra_whitespace\<close> returned for it and with \<open>polarity\<close>,
  \<open>subjectivity\<close> and \<open>sentiment\<close> set from the TextBlob scores of the cleaned
  text. Nothing else is modified, whatever the run's outcome: every entry other than
  these four is the same after the run as before it, and a dictionary that is not in the
  staged list is untouched. No invariant on a record's fields is checked on the way
  beyond reading \<open>text\<close>: when at least five records are staged, every one has a
  string \<open>text\<close>, and no library call raises, the run ends without an exception.
\<close>

theorem records_after_cleaning_and_loading:
  "(\<forall>a k. k \<notin> {''text'', ''polarity'', ''subjectivity'', ''sentiment''} \<longrightarrow>
      getitem (heap (fst (clean_and_load cew TextBlob es_index tds h)) a) k = getitem (h a) k)
   \<and> (\<forall>a. a \<notin> set tds \<longrightarrow> heap (fst (clean_and_load cew TextBlob es_index tds h)) a = h a)
   \<and> (distinct tds \<and> snd (clean_and_load cew TextBlob es_index tds h) = None \<longrightarrow>
        (\<forall>a \<in> set tds. \<exists>t t' pol subj.
            getitem (h a) ''text'' = Inr t \<and> cew t = Inr t' \<and> TextBlob t' = Inr (pol, subj)
          \<and> heap (fst (clean_and_load cew TextBlob es_index tds h)) a
              = setitem (setitem (setitem (setitem (h a) ''text'' t')
                 ''polarity'' (PFloat (round_ndigits pol 4)))
                 ''subjectivity'' (PFloat (round_ndigits subj 4)))
                 ''sentiment'' (PStr (sentiment_of (round_ndigits pol 4)))))
   \<and> (4 < length tds
        \<and> (\<forall>a \<in> set tds. \<exists>t. getitem (h a) ''text'' = Inr (PStr t))
        \<and> (\<forall>t. \<exists>t'. cew (PStr t) = Inr (PStr t'))
        \<and> (\<forall>t. \<exists>p. TextBlob (PStr t) = Inr p)
        \<and> (\<forall>d. es_index d = None)
      \<longrightarrow> snd (clean_and_load cew TextBlob es_index tds h) = None)"
proof (intro conjI)
  show "\<forall>a k. k \<notin> {''text'', ''polarity'', ''subjectivity'', ''sentiment''} \<longrightarrow>
      getitem (heap (fst (clean_and_load cew TextBlob es_index tds h)) a) k = getitem (h a) k"
    using clean_and_load_frame [of _ cew TextBlob es_index tds h] by blast
next
  show "\<forall>a. a \<notin> set tds \<longrightarrow> heap (fst (clean_and_load cew TextBlob es_index tds h)) a = h a"
    using clean_and_load_others [of _ tds cew TextBlob es_index h] by blast
next
  show "distinct tds \<and> snd (clean_and_load cew TextBlob es_index tds h) = None \<longrightarrow>
        (\<forall>a \<in> set tds. \<exists>t t' pol subj.
            getitem (h a) ''text'' = Inr t \<and> cew t = Inr t' \<and> TextBlob t' = Inr (pol, subj)
          \<and> heap (fst (clean_and_load cew TextBlob es_index tds h)) a
              = setitem (setitem (setitem (setitem (h a) ''text'' t')
                 ''polarity'' (PFloat (round_ndigits pol 4)))
                 ''subjectivity'' (PFloat (round_ndigits subj 4)))
                 ''sentiment'' (PStr (sentiment_of (round_ndigits pol 4))))"
  proof (intro impI ballI)
    fix a
    assume h: "distinct tds \<and> snd (clean_and_load cew TextBlob es_index tds h) = None"
      and a: "a \<in> set tds"
    from h have "clean_and_load cew TextBlob es_index tds h
        = (fst (clean_and_load cew TextBlob es_index tds h), None)"
      by (simp add: prod_eq_iff)
    from clean_and_load_records [OF this _ a] h
    show "\<exists>t t' pol subj.
            getitem (h a) ''text'' = Inr t \<and> cew t = Inr t' \<and> TextBlob t' = Inr (pol, subj)
          \<and> heap (fst (clean_and_load cew TextBlob es_index tds h)) a
              = setitem (setitem (setitem (setitem (h a) ''text'' t')
                 ''polarity'' (PFloat (round_ndigits pol 4)))
                 ''subjectivity'' (PFloat (round_ndigits subj 4)))
                 ''sentiment'' (PStr (sentiment_of (round_ndigits pol 4)))"
      by simp
  qed
next
  show "4 < length tds
        \<and> (\<forall>a \<in> set tds. \<exists>t. getitem (h a) ''text'' = Inr (PStr t))
        \<and> (\<forall>t. \<exists>t'. cew (PStr t) = Inr (PStr t'))
        \<and> (\<forall>t. \<exists>p. TextBlob (PStr t) = Inr p)
        \<and> (\<forall>d. es_index d = None)
      \<longrightarrow> snd (clean_and_load cew TextBlob es_index tds h) = None"
    using clean_and_load_total [of tds h cew TextBlob es_index] by blast
qed

theorem records_after_cleaning_and_loading_witness:
  "''element_id'' \<notin> {''text'', ''polarity'', ''subjectivity'', ''sentiment''}
   \<and> getitem (heap (fst (clean_and_load sample_clean sample_TextBlob sample_es_index sample_dicts sample_heap)) 0) ''element_id'' = getitem (sample_heap 0) ''element_id''
   \<and> 5 \<notin> set sample_dicts
   \<and> heap (fst (clean_and_load sample_clean sample_TextBlob sample_es_index sample_dicts sample_heap)) 5 = sample_heap 5
   \<and> distinct sample_dicts \<and> 4 < length sample_dicts \<and> 0 \<in> set sample_dicts
   \<and> snd (clean_and_load sample_clean sample_TextBlob sample_es_index sample_dicts sample_heap) = None
   \<and> (\<exists>t t' pol subj.
          getitem (sample_heap 0) ''text'' = Inr t \<and> sample_clean t = Inr t'
        \<and> sample_TextBlob t' = Inr (pol, subj)
        \<and> heap (fst (clean_and_load sample_clean sample_TextBlob sample_es_index sample_dicts sample_heap)) 0
            = setitem (setitem (setitem (setitem (sample_heap 0) ''text'' t')
                 ''polarity'' (PFloat (round_ndigits pol 4)))
                 ''subjectivity'' (PFloat (round_ndigits subj 4)))
                 ''sentiment'' (PStr (sentiment_of (round_ndigits pol 4))))"
proof -
  have k: "''element_id'' \<notin> {''text'', ''polarity'', ''subjectivity'', ''sentiment''}"
    by simp
  have l: "5 \<notin> set sample_dicts" "distinct sample_dicts" "4 < length sample_dicts"
    "0 \<in> set sample_dicts"
    by (simp_all add: sample_dicts_def)
  have tb: "sample_TextBlob (PStr t) = Inr (if t = ''bad'' then (- 6999999999999998 / 10000000000000000, 6666666666666666 / 10000000000000000) else (0, 0))"
    for t
    by (simp add: sample_TextBlob_def)
  have h: "4 < length sample_dicts
        \<and> (\<forall>a \<in> set sample_dicts. \<exists>t. getitem (sample_heap a) ''text'' = Inr (PStr t))
        \<and> (\<forall>t. \<exists>t'. sample_clean (PStr t) = Inr (PStr t'))
        \<and> (\<forall>t. \<exists>p. sample_TextBlob (PStr t) = Inr p)
        \<and> (\<forall>d. sample_es_index d = None)"
    unfolding tb
    by (simp add: sample_dicts_def sample_heap_def getitem_def sample_clean_def
        sample_es_index_def)
  note inst = records_after_cleaning_and_loading
      [of sample_clean sample_TextBlob sample_es_index sample_dicts sample_heap]
  note frame = inst [THEN conjunct1]
    and others = inst [THEN conjunct2, THEN conjunct1]
    and assigned = inst [THEN conjunct2, THEN conjunct2, THEN conjunct1]
    and total = inst [THEN conjunct2, THEN conjunct2, THEN conjunct2]
  have 1: "getitem (heap (fst (clean_and_load sample_clean sample_TextBlob sample_es_index sample_dicts sample_heap)) 0) ''element_id''
      = getitem (sample_heap 0) ''element_id''"
    using frame [THEN spec, THEN spec, THEN mp, OF k] .
  have 2: "heap (fst (clean_and_load sample_clean sample_TextBlob sample_es_index sample_dicts sample_heap)) 5 = sample_heap 5"
    using others [THEN spec, THEN mp, OF l(1)] .
  have 3: "snd (clean_and_load sample_clean sample_TextBlob sample_es_index sample_dicts sample_heap) = None"
    using total [THEN mp, OF h] .
  have 4: "\<exists>t t' pol subj.
          getitem (sample_heap 0) ''text'' = Inr t \<and> sample_clean t = Inr t'
        \<and> sample_TextBlob t' = Inr (pol, subj)
        \<and> heap (fst (clean_and_load sample_clean sample_TextBlob sample_es_index sample_dicts sample_heap)) 0
            = setitem (setitem (setitem (setitem (sample_heap 0) ''text'' t')
                 ''polarity'' (PFloat (round_ndigits pol 4)))
                 ''subjectivity'' (PFloat (round_ndigits subj 4)))
                 ''sentiment'' (PStr (sentiment_of (round_ndigits pol 4)))"
    using assigned [THEN mp, OF conjI [OF l(2) 3], THEN bspec, OF l(4)] .
  from k 1 l 2 3 4 show ?thesis
    by (intro conjI)
qed

text \<open>
  C3 as stated fails. The sample run has five staged records and ends without an
  exception; the cleaning loop replaces the \<open>text\<close> of the first record and the load
  loop adds a \<open>sentiment\<close> entry, so the record is not what staging returned.
\<close>

theorem records_unchanged_counterexample:
  "snd (clean_and_load sample_clean sample_TextBlob sample_es_index sample_dicts sample_heap) = None
   \<and> getitem (sample_heap 0) ''text'' = Inr (PStr (''bad'' @ [CHR 0x0A]))
   \<and> getitem (heap (fst (clean_and_load sample_clean sample_TextBlob sample_es_index sample_dicts sample_heap)) 0) ''text'' = Inr (PStr ''bad'')
   \<and> getitem (sample_heap 0) ''sentiment'' = Inl (KeyError ''sentiment'')
   \<and> getitem (heap (fst (clean_and_load sample_clean sample_TextBlob sample_es_index sample_dicts sample_heap)) 0) ''sentiment'' = Inr (PStr ''negative'')
   \<and> heap (fst (clean_and_load sample_clean sample_TextBlob sample_es_index sample_dicts sample_heap)) 0 \<noteq> sample_heap 0"
  unfolding sample_clean_and_load_heap sample_clean_and_load_returns
  by (simp add: sample_heap_def getitem_def)

text \<open>
  C4. In every run of the three notebooks, a call into a library or an API that raises is
  the last call the run makes, and the exception it raised is the outcome of the run:
  nothing is called after it (no handler, no retry) and the exception reaches the top
  level as it was raised.
\<close>

theorem library_errors_propagate:
  assumes "(trace, r) \<in>
      {(calls (fst (clean_and_load cew TextBlob es_index tds h)),
        snd (clean_and_load cew TextBlob es_index tds h)),
       (calls (fst (load_into_mysql partition_auto convert_to_dataframe to_sql read_sql_query
          q docs)),
        snd (load_into_mysql partition_auto convert_to_dataframe to_sql read_sql_query q docs)),
       (calls (fst (sec_sentiment_analysis env tickers (fresh fs))),
        snd (sec_sentiment_analysis env tickers (fresh fs)))}"
    and "i < length trace" and "snd (trace ! i) = Some e"
  shows "Suc i = length trace \<and> r = Some e"
proof -
  have "raises_last (calls (fst (sec_sentiment_analysis env tickers (fresh fs))))
      (snd (sec_sentiment_analysis env tickers (fresh fs)))"
    using sec_sentiment_analysis_logs [of env tickers "fresh fs"] by (auto simp: fresh_def)
  then have "raises_last trace r"
    using assms(1) clean_and_load_logs [of cew TextBlob es_index tds h]
      load_into_mysql_logs [of partition_auto convert_to_dataframe to_sql read_sql_query q docs]
    by auto
  then show ?thesis
    using assms(2,3) by (rule raises_last_nth)
qed

theorem library_errors_propagate_witness:
  "(calls (fst (sec_sentiment_analysis failing_env [''mrk''] (fresh []))),
    snd (sec_sentiment_analysis failing_env [''mrk''] (fresh []))) \<in>
      {(calls (fst (clean_and_load sample_clean sample_TextBlob sample_es_index sample_dicts sample_heap)),
        snd (clean_and_load sample_clean sample_TextBlob sample_es_index sample_dicts sample_heap)),
       (calls (fst (load_into_mysql sample_partition sample_convert sample_to_sql sample_read
          ''q'' [''fake.docx''])),
        snd (load_into_mysql sample_partition sample_convert sample_to_sql sample_read
          ''q'' [''fake.docx''])),
       (calls (fst (sec_sentiment_analysis failing_env [''mrk''] (fresh []))),
        snd (sec_sentiment_analysis failing_env [''mrk''] (fresh [])))}
   \<and> 3 < length (calls (fst (sec_sentiment_analysis failing_env [''mrk''] (fresh []))))
   \<and> snd (calls (fst (sec_sentiment_analysis failing_env [''mrk''] (fresh []))) ! 3)
       = Some (Raised ''HTTPError'')
   \<and> Suc 3 = length (calls (fst (sec_sentiment_analysis failing_env [''mrk''] (fresh []))))
   \<and> snd (sec_sentiment_analysis failing_env [''mrk''] (fresh [])) = Some (Raised ''HTTPError'')"
proof -
  have m: "(calls (fst (sec_sentiment_analysis failing_env [''mrk''] (fresh []))),
    snd (sec_sentiment_analysis failing_env [''mrk''] (fresh []))) \<in>
      {(calls (fst (clean_and_load sample_clean sample_TextBlob sample_es_index sample_dicts sample_heap)),
        snd (clean_and_load sample_clean sample_TextBlob sample_es_index sample_dicts sample_heap)),
       (calls (fst (load_into_mysql sample_partition sample_convert sample_to_sql sample_read
          ''q'' [''fake.docx''])),
        snd (load_into_mysql sample_partition sample_convert sample_to_sql sample_read
          ''q'' [''fake.docx''])),
       (calls (fst (sec_sentiment_analysis failing_env [''mrk''] (fresh []))),
        snd (sec_sentiment_analysis failing_env [''mrk''] (fresh [])))}"
    by blast
  have i: "3 < length (calls (fst (sec_sentiment_analysis failing_env [''mrk''] (fresh []))))"
    and e: "snd (calls (fst (sec_sentiment_analysis failing_env [''mrk''] (fresh []))) ! 3)
       = Some (Raised ''HTTPError'')"
    by (simp_all add: failing_run)
  from m i e library_errors_propagate [OF m i e] show ?thesis
    by (intro conjI) simp_all
qed

text \<open>
  (TrainerTrain, None) \<in> set (calls s')
        \<and> (\<exists>data texts labels.
              json_load env ''sec-sentiment-analysis-labeled.json'' = Inr data
            \<and> dataset_columns data = Inr (texts, labels)
            \<and> filter (\<lambda>c. stage_of c = 4) (map fst (calls s'))
                = [JsonLoad ''sec-sentiment-analysis-labeled.json'', DatasetFromDict texts labels,
                   ModelFromPretrained ''distilbert-base-uncased'',
                   TokenizerFromPretrained ''distilbert-base-uncased'',
                   DatasetMap, DataCollatorWithPadding, MakeTrainer, TrainerTrain]). The calls of the SEC notebook are made in the order of its parts: fetching the
  filings and saving them (1), submitting the saved filings to the extraction API (2),
  pre-annotating the extracted elements with the sentiment pipeline (3), fine-tuning (4),
  using the model (5). A part begins only when the part before it is complete.

  Once a call of part 2 or later is made, every ticker has been fetched, in order; and
  when the working directory is an absolute path and no ticker contains a slash, the
  file that the loop wrote for each ticker holds the form fetched for it.

  Once a call of part 3 or later is made, one filing has been posted per ticker, in
  order: the content of the file that the loop opened for that ticker, which under the
  same conditions is the form fetched for it; the risk factors kept for each ticker are
  the \<open>RISK_FACTORS\<close> entry of the JSON body of the response to that filing, whose
  status was checked; and nothing else is kept.

  Once a call of part 4 or later is made, the elements are those that
  \<^verbatim>\<open>isd_to_elements\<close> returned for the risk factors kept; the pipeline has been
  called on the text of every element, in order; there is one annotation per element,
  built from the title-cased label of the first inference that the pipeline returned
  for its text; and elements and annotations have been handed to
  \<^verbatim>\<open>stage_for_label_studio\<close>.

  A run that ends without an exception has called \<^verbatim>\<open>trainer.train()\<close>, and
  the calls of part 4 are exactly: loading the labelled data, building the dataset from
  its two columns, loading the pretrained classifier and its tokenizer, mapping,
  collating, building the trainer, training.
\<close>

theorem stages_in_order:
  assumes "sec_sentiment_analysis env tickers (fresh fs) = (s', r)"
  shows "sorted (map (\<lambda>c. stage_of (fst c)) (calls s'))
   \<and> ((\<exists>c \<in> set (calls s'). 2 \<le> stage_of (fst c)) \<longrightarrow>
          fetched (calls s') = tickers
        \<and> (getcwd env \<noteq> [] \<and> hd (getcwd env) = CHR ''/''
            \<and> (\<forall>t \<in> set tickers. CHR ''/'' \<notin> set t) \<longrightarrow>
            (\<forall>t \<in> set tickers. \<exists>form_text.
                get_form_by_ticker env t = Inr form_text
              \<and> map_of (files s') (resolve (getcwd env) (form_filename env t))
                  = Some form_text)))
   \<and> ((\<exists>c \<in> set (calls s'). 3 \<le> stage_of (fst c)) \<longrightarrow>
          map Some (posted (calls s'))
          = map (\<lambda>t. map_of (files s') (resolve (getcwd env) (text_file t))) tickers
        \<and> (getcwd env \<noteq> [] \<and> hd (getcwd env) = CHR ''/''
            \<and> (\<forall>t \<in> set tickers. CHR ''/'' \<notin> set t) \<longrightarrow>
            map Inr (posted (calls s')) = map (get_form_by_ticker env) tickers)
        \<and> (\<forall>t \<in> set tickers. \<exists>content response body sections.
              map_of (files s') (resolve (getcwd env) (text_file t)) = Some content
            \<and> requests_post env (url s') content = Inr response
            \<and> raise_for_status response = None \<and> json response = Inr body
            \<and> subscript body ''RISK_FACTORS'' = Inr sections
            \<and> map_of (risk_factors s') t = Some sections)
        \<and> (\<forall>k. k \<notin> set tickers \<longrightarrow> map_of (risk_factors s') k = None)
        \<and> (distinct tickers \<longrightarrow> map fst (risk_factors s') = tickers))
   \<and> ((\<exists>c \<in> set (calls s'). 4 \<le> stage_of (fst c)) \<longrightarrow>
          (\<exists>parts. comprehension (isd_to_elements env) (map snd (risk_factors s')) = Inr parts
            \<and> elements s' = concat parts)
        \<and> annotated (calls s') = map element_text (elements s')
        \<and> list_all2 (\<lambda>e a. \<exists>label score rest.
              sentiment_pipeline env (element_text e) = Inr ((label, score) # rest)
            \<and> a = annotation (title label)) (elements s') (annotations s')
        \<and> (StageForLabelStudio (elements s') (annotations s'), None) \<in> set (calls s'))
   \<and> (r = None \<longrightarrow>
          (TrainerTrain, None) \<in> set (calls s')
        \<and> (\<exists>data texts labels.
              json_load env ''sec-sentiment-analysis-labeled.json'' = Inr data
            \<and> dataset_columns data = Inr (texts, labels)
            \<and> filter (\<lambda>c. stage_of c = 4) (map fst (calls s'))
                = [JsonLoad ''sec-sentiment-analysis-labeled.json'', DatasetFromDict texts labels,
                   ModelFromPretrained ''distilbert-base-uncased'',
                   TokenizerFromPretrained ''distilbert-base-uncased'',
                   DatasetMap, DataCollatorWithPadding, MakeTrainer, TrainerTrain]))"
proof -
  have c0: "calls (fresh fs) = []" by (simp add: fresh_def)
  from assms c0 obtain s1 s2 s3 n1 n2 n3 n4 n5 where
    log: "calls s' = n1 @ n2 @ n3 @ n4 @ n5"
    and st1: "\<forall>c \<in> set n1. stage_of (fst c) = 1" and st2: "\<forall>c \<in> set n2. stage_of (fst c) = 2"
    and st3: "\<forall>c \<in> set n3. stage_of (fst c) = 3" and st4: "\<forall>c \<in> set n4. stage_of (fst c) = 4"
    and st5: "\<forall>c \<in> set n5. stage_of (fst c) = 5"
    and p1: "n2 @ n3 @ n4 @ n5 \<noteq> [] \<longrightarrow>
          get_filings env tickers (fresh fs) = (s1, None) \<and> calls s1 = n1
        \<and> files s' = files s1"
    and p2: "n3 @ n4 @ n5 \<noteq> [] \<longrightarrow>
          extract_narrative env tickers s1 = (s2, None) \<and> calls s2 = n1 @ n2
        \<and> files s' = files s2 \<and> url s' = url s2 \<and> risk_factors s' = risk_factors s2"
    and p3: "n4 @ n5 \<noteq> [] \<longrightarrow>
          stage_label_studio env s2 = (s3, None) \<and> calls s3 = n1 @ n2 @ n3
        \<and> elements s' = elements s3 \<and> annotations s' = annotations s3"
    and p4: "r = None \<longrightarrow>
          n4 \<noteq> [] \<and> (\<exists>s4. train env s3 = (s4, None) \<and> calls s4 = n1 @ n2 @ n3 @ n4)"
    by (rule run_parts)
  have f: "fetched (calls s') = fetched n1"
    using st2 st3 st4 st5 unfolding log
    by (simp add: fetched_append fetched_other)
  have po: "posted (calls s') = posted n2" "posted n1 = []"
    using st1 st3 st4 st5 unfolding log
    by (simp_all add: posted_append posted_other)
  have an: "annotated (calls s') = annotated n3" "annotated n1 = []" "annotated n2 = []"
    using st1 st2 st4 st5 unfolding log
    by (simp_all add: annotated_append annotated_other)
  have fl: "filter (\<lambda>c. stage_of c = 4) (map fst (calls s')) = map fst n4"
    using st1 st2 st3 st4 st5 unfolding log
    by (simp add: stage_filter_same stage_filter_other)
  have so: "sorted (map (\<lambda>c. stage_of (fst c)) (calls s'))"
    unfolding log
    using st1 st2 st3 st4 st5
    by (intro sorted_stage_append [of n1 1] sorted_stage_append [of n2 2]
        sorted_stage_append [of n3 3] sorted_stage_append [of n4 4]
        sorted_same_stage [of n5 5]) auto
  have h2: "n2 @ n3 @ n4 @ n5 \<noteq> []" if "\<exists>c \<in> set (calls s'). 2 \<le> stage_of (fst c)"
    using that st1 unfolding log by (cases "n2 @ n3 @ n4 @ n5 = []") auto
  have h3: "n3 @ n4 @ n5 \<noteq> []" if "\<exists>c \<in> set (calls s'). 3 \<le> stage_of (fst c)"
    using that st1 st2 unfolding log by (cases "n3 @ n4 @ n5 = []") auto
  have h4: "n4 @ n5 \<noteq> []" if "\<exists>c \<in> set (calls s'). 4 \<le> stage_of (fst c)"
    using that st1 st2 st3 unfolding log by (cases "n4 @ n5 = []") auto
  have fetch: "for_loop (fetch_step env) tickers (fresh fs) = (s1, None)" "calls s1 = n1"
    "files s' = files s1"
    if "n2 @ n3 @ n4 @ n5 \<noteq> []"
    using that p1 by (simp_all add: get_filings_returned)
  have saved: "(\<forall>t \<in> set tickers. \<exists>form_text.
                get_form_by_ticker env t = Inr form_text
              \<and> map_of (files s') (resolve (getcwd env) (form_filename env t))
                  = Some form_text)"
    if n: "n2 @ n3 @ n4 @ n5 \<noteq> []"
      and a: "getcwd env \<noteq> [] \<and> hd (getcwd env) = CHR ''/''
            \<and> (\<forall>t \<in> set tickers. CHR ''/'' \<notin> set t)"
  proof
    fix t
    assume t: "t \<in> set tickers"
    from a have a': "getcwd env \<noteq> []" "hd (getcwd env) = CHR ''/''"
      "\<forall>t \<in> set tickers. CHR ''/'' \<notin> set t"
      by simp_all
    from a'(3) t have pl: "CHR ''/'' \<notin> set t" by simp
    from fetch_loop_files [OF fetch(1) [OF n] a' t] fetch(3) [OF n]
      same_location [OF a'(1,2) pl]
    show "\<exists>form_text. get_form_by_ticker env t = Inr form_text
        \<and> map_of (files s') (resolve (getcwd env) (form_filename env t)) = Some form_text"
      by simp
  qed
  have c2: "fetched (calls s') = tickers
        \<and> (getcwd env \<noteq> [] \<and> hd (getcwd env) = CHR ''/''
            \<and> (\<forall>t \<in> set tickers. CHR ''/'' \<notin> set t) \<longrightarrow>
            (\<forall>t \<in> set tickers. \<exists>form_text.
                get_form_by_ticker env t = Inr form_text
              \<and> map_of (files s') (resolve (getcwd env) (form_filename env t))
                  = Some form_text))"
    if h: "\<exists>c \<in> set (calls s'). 2 \<le> stage_of (fst c)"
  proof (intro conjI impI)
    show "fetched (calls s') = tickers"
      using fetch_loop_fetched [OF fetch(1) [OF h2 [OF h]]] fetch(2) [OF h2 [OF h]] c0 f
      by simp
  next
    assume "getcwd env \<noteq> [] \<and> hd (getcwd env) = CHR ''/''
            \<and> (\<forall>t \<in> set tickers. CHR ''/'' \<notin> set t)"
    with h2 [OF h] show "(\<forall>t \<in> set tickers. \<exists>form_text.
                get_form_by_ticker env t = Inr form_text
              \<and> map_of (files s') (resolve (getcwd env) (form_filename env t))
                  = Some form_text)"
      by (rule saved)
  qed
  have c3: "map Some (posted (calls s'))
          = map (\<lambda>t. map_of (files s') (resolve (getcwd env) (text_file t))) tickers
        \<and> (getcwd env \<noteq> [] \<and> hd (getcwd env) = CHR ''/''
            \<and> (\<forall>t \<in> set tickers. CHR ''/'' \<notin> set t) \<longrightarrow>
            map Inr (posted (calls s')) = map (get_form_by_ticker env) tickers)
        \<and> (\<forall>t \<in> set tickers. \<exists>content response body sections.
              map_of (files s') (resolve (getcwd env) (text_file t)) = Some content
            \<and> requests_post env (url s') content = Inr response
            \<and> raise_for_status response = None \<and> json response = Inr body
            \<and> subscript body ''RISK_FACTORS'' = Inr sections
            \<and> map_of (risk_factors s') t = Some sections)
        \<and> (\<forall>k. k \<notin> set tickers \<longrightarrow> map_of (risk_factors s') k = None)
        \<and> (distinct tickers \<longrightarrow> map fst (risk_factors s') = tickers)"
    if h: "\<exists>c \<in> set (calls s'). 3 \<le> stage_of (fst c)"
  proof -
    have n3: "n3 @ n4 @ n5 \<noteq> []" using h by (rule h3)
    then have n2: "n2 @ n3 @ n4 @ n5 \<noteq> []" by simp
    from p2 n3 have e: "extract_narrative env tickers s1 = (s2, None)" "calls s2 = n1 @ n2"
      "files s' = files s2" "url s' = url s2" "risk_factors s' = risk_factors s2"
      by simp_all
    have 1: "map Some (posted (calls s'))
          = map (\<lambda>t. map_of (files s') (resolve (getcwd env) (text_file t))) tickers"
      using extract_narrative_posted [OF e(1)] e(2,3) fetch(2) [OF n2] po
      by (simp add: posted_append)
    have 2: "getcwd env \<noteq> [] \<and> hd (getcwd env) = CHR ''/''
            \<and> (\<forall>t \<in> set tickers. CHR ''/'' \<notin> set t) \<longrightarrow>
        map Inr (posted (calls s')) = map (get_form_by_ticker env) tickers"
    proof
      assume a: "getcwd env \<noteq> [] \<and> hd (getcwd env) = CHR ''/''
            \<and> (\<forall>t \<in> set tickers. CHR ''/'' \<notin> set t)"
      from saved [OF n2 a] a
      have "\<forall>t \<in> set tickers. \<exists>x. get_form_by_ticker env t = Inr x
          \<and> map_of (files s') (resolve (getcwd env) (text_file t)) = Some x"
        by (simp add: same_location)
      with 1 show "map Inr (posted (calls s')) = map (get_form_by_ticker env) tickers"
        by (rule read_back)
    qed
    have 3: "(\<forall>t \<in> set tickers. \<exists>content response body sections.
              map_of (files s') (resolve (getcwd env) (text_file t)) = Some content
            \<and> requests_post env (url s') content = Inr response
            \<and> raise_for_status response = None \<and> json response = Inr body
            \<and> subscript body ''RISK_FACTORS'' = Inr sections
            \<and> map_of (risk_factors s') t = Some sections)"
      using extract_narrative_sections [OF e(1)] unfolding e(3,4,5) by blast
    have 4: "\<forall>k. k \<notin> set tickers \<longrightarrow> map_of (risk_factors s') k = None"
      using extract_narrative_others [OF e(1)] unfolding e(5) by blast
    have 5: "distinct tickers \<longrightarrow> map fst (risk_factors s') = tickers"
      using extract_narrative_keys [OF e(1)] unfolding e(5) by blast
    from 1 2 3 4 5 show ?thesis by (intro conjI)
  qed
  have stage: "stage_label_studio env s2 = (s3, None)" "calls s3 = n1 @ n2 @ n3"
    "elements s' = elements s3" "annotations s' = annotations s3"
    "calls s2 = n1 @ n2" "risk_factors s' = risk_factors s2"
    if "n4 @ n5 \<noteq> []"
    using that p2 p3 by simp_all
  have c4: "(\<exists>parts. comprehension (isd_to_elements env) (map snd (risk_factors s')) = Inr parts
            \<and> elements s' = concat parts)
        \<and> annotated (calls s') = map element_text (elements s')
        \<and> list_all2 (\<lambda>e a. \<exists>label score rest.
              sentiment_pipeline env (element_text e) = Inr ((label, score) # rest)
            \<and> a = annotation (title label)) (elements s') (annotations s')
        \<and> (StageForLabelStudio (elements s') (annotations s'), None) \<in> set (calls s')"
    if h: "\<exists>c \<in> set (calls s'). 4 \<le> stage_of (fst c)"
  proof -
    note g = stage [OF h4 [OF h]]
    note u = stage_label_studio_success [OF g(1)]
    have 1: "(\<exists>parts. comprehension (isd_to_elements env) (map snd (risk_factors s')) = Inr parts
            \<and> elements s' = concat parts)"
      using u unfolding g(3,6) by blast
    have 2: "annotated (calls s') = map element_text (elements s')"
      using u an unfolding g(2,3,5) by (simp add: annotated_append)
    have 3: "list_all2 (\<lambda>e a. \<exists>label score rest.
              sentiment_pipeline env (element_text e) = Inr ((label, score) # rest)
            \<and> a = annotation (title label)) (elements s') (annotations s')"
      using u unfolding g(3,4) by blast
    have 4: "(StageForLabelStudio (elements s') (annotations s'), None) \<in> set (calls s')"
      using u unfolding g(2,3,4) log by auto
    from 1 2 3 4 show ?thesis by (intro conjI)
  qed
  have c5: "(TrainerTrain, None) \<in> set (calls s')
        \<and> (\<exists>data texts labels.
              json_load env ''sec-sentiment-analysis-labeled.json'' = Inr data
            \<and> dataset_columns data = Inr (texts, labels)
            \<and> filter (\<lambda>c. stage_of c = 4) (map fst (calls s'))
                = [JsonLoad ''sec-sentiment-analysis-labeled.json'', DatasetFromDict texts labels,
                   ModelFromPretrained ''distilbert-base-uncased'',
                   TokenizerFromPretrained ''distilbert-base-uncased'',
                   DatasetMap, DataCollatorWithPadding, MakeTrainer, TrainerTrain])"
    if h: "r = None"
  proof -
    from p4 h obtain s4 where t: "n4 \<noteq> []" "train env s3 = (s4, None)"
      "calls s4 = n1 @ n2 @ n3 @ n4"
      by auto
    from t(1) have "n4 @ n5 \<noteq> []" by simp
    note g = stage [OF this]
    from train_success [OF t(2)] obtain data texts labels where d:
      "json_load env ''sec-sentiment-analysis-labeled.json'' = Inr data"
      "dataset_columns data = Inr (texts, labels)"
      "calls s4 = calls s3 @
        [(JsonLoad ''sec-sentiment-analysis-labeled.json'', None),
         (DatasetFromDict texts labels, None),
         (ModelFromPretrained ''distilbert-base-uncased'', None),
         (TokenizerFromPretrained ''distilbert-base-uncased'', None),
         (DatasetMap, None), (DataCollatorWithPadding, None), (MakeTrainer, None),
         (TrainerTrain, None)]"
      by blast
    from d(3) t(3) g(2) have n4: "n4 =
        [(JsonLoad ''sec-sentiment-analysis-labeled.json'', None),
         (DatasetFromDict texts labels, None),
         (ModelFromPretrained ''distilbert-base-uncased'', None),
         (TokenizerFromPretrained ''distilbert-base-uncased'', None),
         (DatasetMap, None), (DataCollatorWithPadding, None), (MakeTrainer, None),
         (TrainerTrain, None)]"
      by simp
    have 1: "(TrainerTrain, None) \<in> set (calls s')"
      unfolding log n4 by simp
    have "filter (\<lambda>c. stage_of c = 4) (map fst (calls s'))
        = [JsonLoad ''sec-sentiment-analysis-labeled.json'', DatasetFromDict texts labels,
                   ModelFromPretrained ''distilbert-base-uncased'',
                   TokenizerFromPretrained ''distilbert-base-uncased'',
                   DatasetMap, DataCollatorWithPadding, MakeTrainer, TrainerTrain]"
      unfolding fl n4 by simp
    with d(1,2) have 2: "(\<exists>data texts labels.
              json_load env ''sec-sentiment-analysis-labeled.json'' = Inr data
            \<and> dataset_columns data = Inr (texts, labels)
            \<and> filter (\<lambda>c. stage_of c = 4) (map fst (calls s'))
                = [JsonLoad ''sec-sentiment-analysis-labeled.json'', DatasetFromDict texts labels,
                   ModelFromPretrained ''distilbert-base-uncased'',
                   TokenizerFromPretrained ''distilbert-base-uncased'',
                   DatasetMap, DataCollatorWithPadding, MakeTrainer, TrainerTrain])"
      by blast
    from 1 2 show ?thesis by (rule conjI)
  qed
  show ?thesis
  proof (intro conjI)
    show "sorted (map (\<lambda>c. stage_of (fst c)) (calls s'))" by (rule so)
  qed (rule impI, erule c2 c3 c4 c5)+
qed

theorem stages_in_order_witness:
  "snd (sec_sentiment_analysis sample_env [''ehc''] (fresh [])) = None
   \<and> (TrainerTrain, None) \<in> set (calls (fst (sec_sentiment_analysis sample_env [''ehc''] (fresh []))))
   \<and> 4 \<le> stage_of TrainerTrain
   \<and> getcwd sample_env \<noteq> [] \<and> hd (getcwd sample_env) = CHR ''/''
   \<and> CHR ''/'' \<notin> set ''ehc'' \<and> distinct [''ehc'']
   \<and> sorted (map (\<lambda>c. stage_of (fst c)) (calls (fst (sec_sentiment_analysis sample_env [''ehc''] (fresh [])))))
   \<and> fetched (calls (fst (sec_sentiment_analysis sample_env [''ehc''] (fresh [])))) = [''ehc'']
   \<and> map Inr (posted (calls (fst (sec_sentiment_analysis sample_env [''ehc''] (fresh []))))) = map (get_form_by_ticker sample_env) [''ehc'']
   \<and> map fst (risk_factors (fst (sec_sentiment_analysis sample_env [''ehc''] (fresh [])))) = [''ehc'']
   \<and> annotated (calls (fst (sec_sentiment_analysis sample_env [''ehc''] (fresh [])))) = map element_text (elements (fst (sec_sentiment_analysis sample_env [''ehc''] (fresh []))))
   \<and> list_all2 (\<lambda>e a. \<exists>label score rest.
              sentiment_pipeline sample_env (element_text e) = Inr ((label, score) # rest)
            \<and> a = annotation (title label))
          (elements (fst (sec_sentiment_analysis sample_env [''ehc''] (fresh [])))) (annotations (fst (sec_sentiment_analysis sample_env [''ehc''] (fresh []))))
   \<and> (StageForLabelStudio (elements (fst (sec_sentiment_analysis sample_env [''ehc''] (fresh [])))) (annotations (fst (sec_sentiment_analysis sample_env [''ehc''] (fresh [])))), None)
        \<in> set (calls (fst (sec_sentiment_analysis sample_env [''ehc''] (fresh []))))
   \<and> elements (fst (sec_sentiment_analysis sample_env [''ehc''] (fresh []))) = [sample_element ''risk'']
   \<and> annotations (fst (sec_sentiment_analysis sample_env [''ehc''] (fresh []))) = [annotation ''Negative'']"
proof -
  have r: "snd (sec_sentiment_analysis sample_env [''ehc''] (fresh [])) = None"
    and t: "(TrainerTrain, None) \<in> set (calls (fst (sec_sentiment_analysis sample_env [''ehc''] (fresh []))))"
    and e: "elements (fst (sec_sentiment_analysis sample_env [''ehc''] (fresh []))) = [sample_element ''risk'']"
      "annotations (fst (sec_sentiment_analysis sample_env [''ehc''] (fresh []))) = [annotation ''Negative'']"
    unfolding sample_run by simp_all
  have s4: "4 \<le> stage_of TrainerTrain" by simp
  have a: "getcwd sample_env \<noteq> [] \<and> hd (getcwd sample_env) = CHR ''/''
            \<and> (\<forall>t \<in> set [''ehc'']. CHR ''/'' \<notin> set t)"
    by (simp add: sample_env_def)
  then have a': "getcwd sample_env \<noteq> []" "hd (getcwd sample_env) = CHR ''/''"
    "CHR ''/'' \<notin> set ''ehc''"
    by simp_all
  have d: "distinct [''ehc'']" by simp
  from t s4 have h4: "\<exists>c \<in> set (calls (fst (sec_sentiment_analysis sample_env [''ehc''] (fresh [])))). 4 \<le> stage_of (fst c)"
    by force
  then have h3: "\<exists>c \<in> set (calls (fst (sec_sentiment_analysis sample_env [''ehc''] (fresh [])))). 3 \<le> stage_of (fst c)"
    and h2: "\<exists>c \<in> set (calls (fst (sec_sentiment_analysis sample_env [''ehc''] (fresh [])))). 2 \<le> stage_of (fst c)"
    by force+
  note inst = stages_in_order [of sample_env "[''ehc'']" "[]" "fst (sec_sentiment_analysis sample_env [''ehc''] (fresh []))" "snd (sec_sentiment_analysis sample_env [''ehc''] (fresh []))",
      OF surjective_pairing]
  note c1 = inst [THEN conjunct1]
    and c2 = inst [THEN conjunct2, THEN conjunct1, THEN mp, OF h2]
    and c3 = inst [THEN conjunct2, THEN conjunct2, THEN conjunct1, THEN mp, OF h3]
    and c4 = inst [THEN conjunct2, THEN conjunct2, THEN conjunct2, THEN conjunct1, THEN mp,
        OF h4]
  note all_fetched = c2 [THEN conjunct1]
    and all_posted = c3 [THEN conjunct2, THEN conjunct1, THEN mp, OF a]
    and keys = c3 [THEN conjunct2, THEN conjunct2, THEN conjunct2, THEN conjunct2, THEN mp,
        OF d]
    and all_annotated = c4 [THEN conjunct2, THEN conjunct1]
    and made = c4 [THEN conjunct2, THEN conjunct2, THEN conjunct1]
    and handed = c4 [THEN conjunct2, THEN conjunct2, THEN conjunct2]
  from r t s4 a' d c1 all_fetched all_posted keys all_annotated made handed e show ?thesis
    by (intro conjI)
qed

text \<open>
  C6 (amended). The MySQL notebook loads with one \<^verbatim>\<open>to_sql\<close> call, on the
  dataframe converted from the elements of all documents. The Elasticsearch notebook
  loads with one \<^verbatim>\<open>es_client.index\<close> call per element dictionary: a run that
  ends without an exception has made as many calls as there are dictionaries, at least
  five.
\<close>

theorem load_calls:
  "(load_into_mysql partition_auto convert_to_dataframe to_sql read_sql_query q docs = (s1, None)
      \<longrightarrow> (\<exists>parts df.
            comprehension (\<lambda>d. partition_auto (path_join EXAMPLE_DOCS_FOLDER d)) docs = Inr parts
          \<and> convert_to_dataframe (concat parts) = Inr df
          \<and> to_sql_calls (calls s1) = [df]))
   \<and> (clean_and_load cew TextBlob es_index tds h = (s2, None)
      \<longrightarrow> length (index_calls (calls s2)) = length tds \<and> 4 < length tds)"
proof (rule conjI)
  show "load_into_mysql partition_auto convert_to_dataframe to_sql read_sql_query q docs = (s1, None)
      \<longrightarrow> (\<exists>parts df.
            comprehension (\<lambda>d. partition_auto (path_join EXAMPLE_DOCS_FOLDER d)) docs = Inr parts
          \<and> convert_to_dataframe (concat parts) = Inr df
          \<and> to_sql_calls (calls s1) = [df])"
    using load_into_mysql_success
      [of partition_auto convert_to_dataframe to_sql read_sql_query q docs s1]
    by blast
next
  show "clean_and_load cew TextBlob es_index tds h = (s2, None)
      \<longrightarrow> length (index_calls (calls s2)) = length tds \<and> 4 < length tds"
    using clean_and_load_success [of cew TextBlob es_index tds h s2] by blast
qed

theorem load_calls_witness:
  "load_into_mysql sample_partition sample_convert sample_to_sql sample_read ''q''
        [''fake-email.eml'', ''fake.docx'']
     = (fst (load_into_mysql sample_partition sample_convert sample_to_sql sample_read ''q''
        [''fake-email.eml'', ''fake.docx'']), None)
   \<and> clean_and_load sample_clean sample_TextBlob sample_es_index sample_dicts sample_heap
     = (fst (clean_and_load sample_clean sample_TextBlob sample_es_index sample_dicts sample_heap), None)
   \<and> length (to_sql_calls (calls (fst (load_into_mysql sample_partition sample_convert sample_to_sql sample_read ''q''
        [''fake-email.eml'', ''fake.docx''])))) = 1
   \<and> length (index_calls (calls (fst (clean_and_load sample_clean sample_TextBlob sample_es_index sample_dicts sample_heap)))) = length sample_dicts
   \<and> 4 < length sample_dicts"
proof -
  have a: "load_into_mysql sample_partition sample_convert sample_to_sql sample_read ''q''
        [''fake-email.eml'', ''fake.docx'']
     = (fst (load_into_mysql sample_partition sample_convert sample_to_sql sample_read ''q''
        [''fake-email.eml'', ''fake.docx'']), None)"
    using sample_load_into_mysql by (simp add: prod_eq_iff)
  have b: "clean_and_load sample_clean sample_TextBlob sample_es_index sample_dicts sample_heap
     = (fst (clean_and_load sample_clean sample_TextBlob sample_es_index sample_dicts sample_heap), None)"
    using sample_clean_and_load_returns by (simp add: prod_eq_iff)
  from load_calls [of sample_partition sample_convert sample_to_sql sample_read "''q''"
      "[''fake-email.eml'', ''fake.docx'']"
      "fst (load_into_mysql sample_partition sample_convert sample_to_sql sample_read ''q''
        [''fake-email.eml'', ''fake.docx''])"
      sample_clean sample_TextBlob sample_es_index sample_dicts sample_heap
      "fst (clean_and_load sample_clean sample_TextBlob sample_es_index sample_dicts sample_heap)"]
    a b
  have "(\<exists>df. to_sql_calls (calls (fst (load_into_mysql sample_partition sample_convert sample_to_sql sample_read ''q''
        [''fake-email.eml'', ''fake.docx'']))) = [df])
    \<and> length (index_calls (calls (fst (clean_and_load sample_clean sample_TextBlob sample_es_index sample_dicts sample_heap)))) = length sample_dicts
    \<and> 4 < length sample_dicts"
    by blast
  then have "length (to_sql_calls (calls (fst (load_into_mysql sample_partition sample_convert sample_to_sql sample_read ''q''
        [''fake-email.eml'', ''fake.docx''])))) = 1
    \<and> length (index_calls (calls (fst (clean_and_load sample_clean sample_TextBlob sample_es_index sample_dicts sample_heap)))) = length sample_dicts
    \<and> 4 < length sample_dicts"
    by auto
  with a b show ?thesis
    by (intro conjI) simp_all
qed

text \<open>
  C6 as stated fails for the search index: the sample run stages five elements, ends
  without an exception and makes five \<^verbatim>\<open>es_client.index\<close> calls, each with the
  document of one element.
\<close>

theorem single_bulk_write_counterexample:
  "snd (clean_and_load sample_clean sample_TextBlob sample_es_index sample_dicts sample_heap) = None
   \<and> length (index_calls (calls (fst (clean_and_load sample_clean sample_TextBlob sample_es_index sample_dicts sample_heap)))) = 5
   \<and> map (\<lambda>doc. getitem doc ''element_id'') (index_calls (calls (fst (clean_and_load sample_clean sample_TextBlob sample_es_index sample_dicts sample_heap))))
      = [Inr (PStr ''e0''), Inr (PStr ''e1''), Inr (PStr ''e2''), Inr (PStr ''e3''),
         Inr (PStr ''e4'')]"
  unfolding sample_clean_and_load_calls sample_clean_and_load_returns
  by (simp add: getitem_def)

text \<open>
  C8. After the two sorts the hits are the same hits, in descending order of
  subjectivity, and hits of equal subjectivity are in descending order of polarity: of
  two hits, the earlier one has the greater subjectivity, or the same subjectivity and a
  polarity at least as great.
\<close>

theorem double_sort_order:
  "sorted_wrt (\<lambda>a b. subjectivity b < subjectivity a
                 \<or> (subjectivity a = subjectivity b \<and> polarity b \<le> polarity a))
     (sorted_elements response)
   \<and> mset (sorted_elements response) = mset response"
proof -
  let ?ys = "sorted_reverse polarity response"
  have "sorted_wrt (\<lambda>a b. polarity b \<le> polarity a) (filter (\<lambda>y. subjectivity y = k) ?ys)" for k
    using sorted_reverse_descending [of polarity response] by (rule sorted_wrt_filter)
  then have "sorted_wrt (\<lambda>a b. polarity b \<le> polarity a)
      (filter (\<lambda>y. subjectivity y = k) (sorted_reverse subjectivity ?ys))" for k
    by (simp add: sorted_reverse_stable)
  then have "sorted_wrt (\<lambda>a b. subjectivity b < subjectivity a
                 \<or> (subjectivity a = subjectivity b \<and> polarity b \<le> polarity a))
     (sorted_reverse subjectivity ?ys)"
    using sorted_reverse_descending [of subjectivity ?ys]
    by (simp add: sorted_wrt_lex_filter)
  then show ?thesis
    by (simp add: sorted_elements_def mset_sorted_reverse)
qed

text \<open>
  C9. Whenever every item of the labelled training data is a dictionary with a
  \<open>text\<close> and a \<open>sentiment\<close> entry, the dataset construction returns, with one label
  per item; and whenever it returns, the label at each position is 0 exactly when that
  item's \<open>sentiment\<close> is the string \<open>Negative\<close> and 1 for every other value, so that
  every label is 0 or 1.
\<close>

theorem label_mapping:
  "((\<forall>item \<in> set items. labeled_item item) \<longrightarrow>
      (\<exists>texts labels. dataset_columns items = Inr (texts, labels)))
   \<and> (\<forall>texts labels. dataset_columns items = Inr (texts, labels) \<longrightarrow>
        length labels = length items
        \<and> (\<forall>i < length items.
             (labels ! i = 0 \<longleftrightarrow>
                subscript (items ! i) ''sentiment'' = Inr (PStr ''Negative''))
           \<and> (labels ! i = 1 \<longleftrightarrow>
                subscript (items ! i) ''sentiment'' \<noteq> Inr (PStr ''Negative'')))
        \<and> set labels \<subseteq> {0, 1})"
proof (rule conjI)
  show "(\<forall>item \<in> set items. labeled_item item) \<longrightarrow>
      (\<exists>texts labels. dataset_columns items = Inr (texts, labels))"
    using dataset_columns_total by blast
next
  have "length labels = length items
        \<and> (\<forall>i < length items.
             (labels ! i = 0 \<longleftrightarrow>
                subscript (items ! i) ''sentiment'' = Inr (PStr ''Negative''))
           \<and> (labels ! i = 1 \<longleftrightarrow>
                subscript (items ! i) ''sentiment'' \<noteq> Inr (PStr ''Negative'')))
        \<and> set labels \<subseteq> {0, 1}"
    if r: "dataset_columns items = Inr (texts, labels)" for texts labels
  proof -
    have c: "comprehension item_label items = Inr labels"
      using r by (rule dataset_columns_labels)
    have len: "length labels = length items"
      using c by (rule comprehension_length)
    have each: "\<forall>i < length items.
        (labels ! i = 0 \<longleftrightarrow>
           subscript (items ! i) ''sentiment'' = Inr (PStr ''Negative''))
      \<and> (labels ! i = 1 \<longleftrightarrow>
           subscript (items ! i) ''sentiment'' \<noteq> Inr (PStr ''Negative''))"
      using comprehension_nth [OF c] item_label_cases by blast
    have "set labels \<subseteq> {0, 1}"
    proof
      fix l
      assume "l \<in> set labels"
      then obtain i where i: "i < length labels" "labels ! i = l"
        by (auto simp: in_set_conv_nth)
      then have "item_label (items ! i) = Inr l"
        using comprehension_nth [OF c, of i] len by simp
      then show "l \<in> {0, 1}"
        using item_label_cases by blast
    qed
    with len each show ?thesis by blast
  qed
  then show "\<forall>texts labels. dataset_columns items = Inr (texts, labels) \<longrightarrow>
        length labels = length items
        \<and> (\<forall>i < length items.
             (labels ! i = 0 \<longleftrightarrow>
                subscript (items ! i) ''sentiment'' = Inr (PStr ''Negative''))
           \<and> (labels ! i = 1 \<longleftrightarrow>
                subscript (items ! i) ''sentiment'' \<noteq> Inr (PStr ''Negative'')))
        \<and> set labels \<subseteq> {0, 1}"
    by blast
qed

theorem label_mapping_witness:
  "labeled_item (PDict [(''text'', PStr ''a''), (''sentiment'', PStr ''Negative'')])
   \<and> labeled_item (PDict [(''text'', PStr ''b''), (''sentiment'', PStr ''negative'')])
   \<and> dataset_columns
        [PDict [(''text'', PStr ''a''), (''sentiment'', PStr ''Negative'')],
         PDict [(''text'', PStr ''b''), (''sentiment'', PStr ''negative'')]]
       = Inr ([PStr ''a'', PStr ''b''], [0, 1])
   \<and> set [0, 1 :: int] \<subseteq> {0, 1}"
proof -
  let ?td = "[PDict [(''text'', PStr ''a''), (''sentiment'', PStr ''Negative'')],
              PDict [(''text'', PStr ''b''), (''sentiment'', PStr ''negative'')]]"
  have items: "\<forall>item \<in> set ?td. labeled_item item"
    by (simp add: labeled_item_def)
  have run: "dataset_columns ?td = Inr ([PStr ''a'', PStr ''b''], [0, 1])"
    by (simp add: dataset_columns_def item_label_def label_of_def getitem_def)
  from label_mapping [of ?td] run have "set [0, 1 :: int] \<subseteq> {0, 1}"
    by blast
  with items run show ?thesis
    by simp
qed

end
